theory Spec2Isabelle
  imports
    Complex_Main
    "HOL-Library.Multiset"
    "HOL-Library.AList"
    "HOL-Library.List_Lexorder"
    "HOL-Library.Char_ord"
begin

section \<open>Python strings\<close>

text \<open>
  A Python \<^verbatim>\<open>str\<close> is modelled as a \<^typ>\<open>string\<close> whose characters are the code points
  0..255. The character classes below are the ones Python's \<^verbatim>\<open>str\<close> methods and the
  \<^verbatim>\<open>re\<close> module use on those code points: \<^verbatim>\<open>\s\<close> and \<^verbatim>\<open>str.strip()\<close> use
  \<^verbatim>\<open>str.isspace\<close>, \<^verbatim>\<open>\w\<close> is \<^verbatim>\<open>str.isalnum\<close> or the underscore, \<^verbatim>\<open>\d\<close> is a decimal
  digit, and \<^verbatim>\<open>str.lower()\<close> maps the upper-case letters to their lower-case partners.
\<close>

definition is_space :: "char \<Rightarrow> bool" where
  "is_space c = (let n = (of_char c :: nat) in
     (9 \<le> n \<and> n \<le> 13) \<or> (28 \<le> n \<and> n \<le> 32) \<or> n = 133 \<or> n = 160)"

definition is_digit :: "char \<Rightarrow> bool" where
  "is_digit c = (let n = (of_char c :: nat) in 48 \<le> n \<and> n \<le> 57)"

definition is_word :: "char \<Rightarrow> bool" where
  "is_word c = (let n = (of_char c :: nat) in
     (48 \<le> n \<and> n \<le> 57) \<or> (65 \<le> n \<and> n \<le> 90) \<or> n = 95 \<or> (97 \<le> n \<and> n \<le> 122) \<or>
     n = 170 \<or> n = 178 \<or> n = 179 \<or> n = 181 \<or> n = 185 \<or> n = 186 \<or>
     (188 \<le> n \<and> n \<le> 190) \<or> (192 \<le> n \<and> n \<le> 214) \<or> (216 \<le> n \<and> n \<le> 246) \<or>
     248 \<le> n)"

definition is_upper :: "char \<Rightarrow> bool" where
  "is_upper c = (let n = (of_char c :: nat) in
     (65 \<le> n \<and> n \<le> 90) \<or> (192 \<le> n \<and> n \<le> 214) \<or> (216 \<le> n \<and> n \<le> 222))"

definition lower_char :: "char \<Rightarrow> char" where
  "lower_char c = (if is_upper c then char_of ((of_char c :: nat) + 32) else c)"

text \<open>\<^verbatim>\<open>s.lower()\<close>\<close>

definition lower :: "string \<Rightarrow> string" where
  "lower s = map lower_char s"

text \<open>\<^verbatim>\<open>s.strip()\<close> is \<open>strip_chars is_space s\<close>; \<^verbatim>\<open>s.strip('_')\<close> strips underscores.\<close>

definition strip_chars :: "(char \<Rightarrow> bool) \<Rightarrow> string \<Rightarrow> string" where
  "strip_chars P s = rev (dropWhile P (rev (dropWhile P s)))"

text \<open>
  \<^verbatim>\<open>re.sub(r'X+', '_', s)\<close> for a character class \<open>X\<close>: scanning from the left, every
  maximal run of characters of the class is replaced by one underscore.
\<close>

function re_sub_plus :: "(char \<Rightarrow> bool) \<Rightarrow> string \<Rightarrow> string" where
  "re_sub_plus P [] = []"
| "re_sub_plus P (c # cs) =
     (if P c then CHR ''_'' # re_sub_plus P (dropWhile P cs) else c # re_sub_plus P cs)"
  by pat_completeness auto
termination
  by (relation "measure (\<lambda>(P, s). length s)") (auto simp: length_dropWhile_le less_Suc_eq_le)

text \<open>\<^verbatim>\<open>str(n)\<close> for a non-negative integer.\<close>

fun string_of_nat :: "nat \<Rightarrow> string" where
  "string_of_nat n = (if n < 10 then [char_of (48 + n)]
     else string_of_nat (n div 10) @ [char_of (48 + n mod 10)])"

declare string_of_nat.simps [simp del]

section \<open>Column-name canonicalization (processors.py, \<^verbatim>\<open>DataProcessor.clean_column_names\<close>)\<close>

text \<open>The body of the loop: the five rewriting steps applied to one column label.\<close>

definition clean_name :: "string \<Rightarrow> string" where
  "clean_name col =
     (let clean_col = strip_chars is_space (lower col);
          clean_col = re_sub_plus is_space clean_col;
          clean_col = filter is_word clean_col;
          clean_col = re_sub_plus (\<lambda>c. c = CHR ''_'') clean_col;
          clean_col = strip_chars (\<lambda>c. c = CHR ''_'') clean_col
      in clean_col)"

text \<open>
  The loop over \<^verbatim>\<open>df.columns\<close>: \<open>new_columns\<close> is the accumulator, and a label that
  cleans to the empty string becomes \<^verbatim>\<open>col_<len(new_columns)>\<close>.
\<close>

fun clean_loop :: "string list \<Rightarrow> string list \<Rightarrow> string list" where
  "clean_loop new_columns [] = new_columns"
| "clean_loop new_columns (col # cols) =
     (let clean_col = clean_name col
      in clean_loop (new_columns @
           [if clean_col \<noteq> [] then clean_col else ''col_'' @ string_of_nat (length new_columns)]) cols)"

section \<open>Tables\<close>

text \<open>
  A pandas \<^verbatim>\<open>DataFrame\<close>: the column labels in order, the dtype of each column, and the
  rows (each row holds one cell per column). A cell is missing (\<^verbatim>\<open>None\<close>, \<^verbatim>\<open>NaN\<close>,
  \<^verbatim>\<open>pd.NA\<close>), a text or a number. Column labels are the strings \<^verbatim>\<open>str(col)\<close>.
\<close>

datatype cell = Null | Str string | Num rat

datatype dtype = DObject | DNumber | DDatetime | DString

record dataframe =
  columns :: "string list"
  dtypes :: "dtype list"
  rows :: "cell list list"

definition wf_df :: "dataframe \<Rightarrow> bool" where
  "wf_df df \<longleftrightarrow> length (dtypes df) = length (columns df) \<and>
     list_all (\<lambda>r. length r = length (columns df)) (rows df)"

text \<open>\<^verbatim>\<open>clean_column_names\<close>: \<^verbatim>\<open>df.columns = new_columns\<close> on a copy of the table.\<close>

definition clean_column_names :: "dataframe \<Rightarrow> dataframe" where
  "clean_column_names df = df\<lparr>columns := clean_loop [] (columns df)\<rparr>"

text \<open>Substring tests: \<^verbatim>\<open>s.startswith(p)\<close>, \<^verbatim>\<open>s.endswith(p)\<close> and \<^verbatim>\<open>sub in s\<close>.\<close>

fun startswith :: "string \<Rightarrow> string \<Rightarrow> bool" where
  "startswith s [] = True"
| "startswith [] (p # ps) = False"
| "startswith (c # cs) (p # ps) = (c = p \<and> startswith cs ps)"

definition endswith :: "string \<Rightarrow> string \<Rightarrow> bool" where
  "endswith s p = startswith (rev s) (rev p)"

fun py_in :: "string \<Rightarrow> string \<Rightarrow> bool" where
  "py_in sub [] = (sub = [])"
| "py_in sub (c # cs) = (startswith (c # cs) sub \<or> py_in sub cs)"

text \<open>
  \<^verbatim>\<open>repr\<close> of a list of plain strings (no quote, backslash or control character in
  them), as an f-string prints it: \<^verbatim>\<open>['a', 'b']\<close>.
\<close>

definition repr_str :: "string \<Rightarrow> string" where
  "repr_str s = [CHR 0x27] @ s @ [CHR 0x27]"

fun join_comma :: "string list \<Rightarrow> string" where
  "join_comma [] = []"
| "join_comma [s] = s"
| "join_comma (s # t # ss) = s @ '', '' @ join_comma (t # ss)"

definition repr_list :: "string list \<Rightarrow> string" where
  "repr_list xs = ''['' @ join_comma (map repr_str xs) @ '']''"

section \<open>Exceptions\<close>

text \<open>A raised exception, by class, with the text \<^verbatim>\<open>str(e)\<close>.\<close>

datatype py_exception =
  AttributeError string | KeyError string | ValueError string | TypeError string | OtherError string

fun exc_str :: "py_exception \<Rightarrow> string" where
  "exc_str (AttributeError m) = m"
| "exc_str (KeyError m) = m"
| "exc_str (ValueError m) = m"
| "exc_str (TypeError m) = m"
| "exc_str (OtherError m) = m"

section \<open>The pandas operations the pipeline calls\<close>

text \<open>The positions of the columns carrying a label (a label can occur more than once).\<close>

definition positions :: "string \<Rightarrow> dataframe \<Rightarrow> nat list" where
  "positions name df = [j \<leftarrow> [0..<length (columns df)]. columns df ! j = name]"

definition column_cells :: "nat \<Rightarrow> dataframe \<Rightarrow> cell list" where
  "column_cells j df = map (\<lambda>r. r ! j) (rows df)"

text \<open>
  \<^verbatim>\<open>df[col].dtype\<close>: with a label that occurs twice \<^verbatim>\<open>df[col]\<close> is a DataFrame, which has
  no attribute \<^verbatim>\<open>dtype\<close>.
\<close>

definition series_dtype :: "dataframe \<Rightarrow> string \<Rightarrow> py_exception + dtype" where
  "series_dtype df col =
     (case positions col df of
        [] \<Rightarrow> Inl (KeyError (repr_str col))
      | [j] \<Rightarrow> Inr (dtypes df ! j)
      | _ \<Rightarrow> Inl (AttributeError (repr_str ''DataFrame'' @ '' object has no attribute '' @
                               repr_str ''dtype'')))"

text \<open>\<^verbatim>\<open>df[col] = series\<close> for the column at position \<open>j\<close>.\<close>

definition set_series :: "nat \<Rightarrow> dtype \<times> cell list \<Rightarrow> dataframe \<Rightarrow> dataframe" where
  "set_series j s df =
     df\<lparr>dtypes := (dtypes df)[j := fst s],
        rows := map (\<lambda>(r, c). r[j := c]) (zip (rows df) (snd s))\<rparr>"

text \<open>
  \<^verbatim>\<open>df[name] = scalar\<close> with a string or \<^verbatim>\<open>None\<close>: every column carrying the label is
  overwritten, and a new column of dtype object is appended when there is none.
\<close>

definition assign_scalar :: "string \<Rightarrow> cell \<Rightarrow> dataframe \<Rightarrow> dataframe" where
  "assign_scalar name v df =
     (if name \<in> set (columns df) then
        df\<lparr>dtypes := map (\<lambda>(c, dt). if c = name then DObject else dt) (zip (columns df) (dtypes df)),
           rows := map (\<lambda>r. map (\<lambda>(c, x). if c = name then v else x) (zip (columns df) r)) (rows df)\<rparr>
      else
        df\<lparr>columns := columns df @ [name], dtypes := dtypes df @ [DObject],
           rows := map (\<lambda>r. r @ [v]) (rows df)\<rparr>)"

text \<open>\<^verbatim>\<open>df.dropna(how='all')\<close> and \<^verbatim>\<open>df.dropna(axis=1, how='all')\<close>.\<close>

definition dropna_rows :: "dataframe \<Rightarrow> dataframe" where
  "dropna_rows df = df\<lparr>rows := filter (\<lambda>r. list_ex (\<lambda>c. c \<noteq> Null) r) (rows df)\<rparr>"

definition dropna_columns :: "dataframe \<Rightarrow> dataframe" where
  "dropna_columns df =
     (let keep = [j \<leftarrow> [0..<length (columns df)]. list_ex (\<lambda>r. r ! j \<noteq> Null) (rows df)]
      in \<lparr>columns = map (\<lambda>j. columns df ! j) keep,
          dtypes = map (\<lambda>j. dtypes df ! j) keep,
          rows = map (\<lambda>r. map (\<lambda>j. r ! j) keep) (rows df)\<rparr>)"

text \<open>
  The order pandas sorts group keys in. Keys of one kind are ordered by value (texts by
  code point, as Python compares strings); across kinds the model puts numbers before
  texts before missing values.
\<close>

instantiation cell :: linorder
begin

fun less_eq_cell :: "cell \<Rightarrow> cell \<Rightarrow> bool" where
  "less_eq_cell (Num a) (Num b) = (a \<le> b)"
| "less_eq_cell (Num a) (Str b) = True"
| "less_eq_cell (Num a) Null = True"
| "less_eq_cell (Str a) (Num b) = False"
| "less_eq_cell (Str a) (Str b) = (a \<le> b)"
| "less_eq_cell (Str a) Null = True"
| "less_eq_cell Null (Num b) = False"
| "less_eq_cell Null (Str b) = False"
| "less_eq_cell Null Null = True"

definition less_cell :: "cell \<Rightarrow> cell \<Rightarrow> bool" where
  "less_cell a b = (a \<le> b \<and> \<not> b \<le> a)"

instance
proof
  fix x y z :: cell
  show "(x < y) = (x \<le> y \<and> \<not> y \<le> x)" by (simp add: less_cell_def)
  show "x \<le> x" by (cases x) simp_all
  show "x \<le> y \<Longrightarrow> y \<le> z \<Longrightarrow> x \<le> z" by (cases x; cases y; cases z) simp_all
  show "x \<le> y \<Longrightarrow> y \<le> x \<Longrightarrow> x = y" by (cases x; cases y) simp_all
  show "x \<le> y \<or> y \<le> x" by (cases x; cases y) auto
qed

end

text \<open>
  \<^verbatim>\<open>df.groupby(by)\<close> with a list of labels, iterated: each label must name exactly one
  column; a row with a missing value in a key column belongs to no group (the default
  \<^verbatim>\<open>dropna=True\<close>); the groups come in the sorted order of their keys (the default
  \<^verbatim>\<open>sort=True\<close>), each key a tuple with one value per label, each group the rows of
  the table with that key, in their order.
\<close>

fun grouper_positions :: "dataframe \<Rightarrow> string list \<Rightarrow> py_exception + nat list" where
  "grouper_positions df [] = Inr []"
| "grouper_positions df (col # cols) =
     (case positions col df of
        [] \<Rightarrow> Inl (KeyError (repr_str col))
      | [j] \<Rightarrow> (case grouper_positions df cols of Inl e \<Rightarrow> Inl e | Inr js \<Rightarrow> Inr (j # js))
      | _ \<Rightarrow> Inl (ValueError (''Grouper for '' @ repr_str col @ '' not 1-dimensional'')))"

definition row_key :: "nat list \<Rightarrow> cell list \<Rightarrow> cell list" where
  "row_key js r = map (\<lambda>j. r ! j) js"

definition groupby :: "dataframe \<Rightarrow> string list \<Rightarrow> py_exception + (cell list \<times> dataframe) list" where
  "groupby df by =
     (if by = [] then Inl (ValueError ''No group keys passed!'')
      else case grouper_positions df by of
        Inl e \<Rightarrow> Inl e
      | Inr js \<Rightarrow>
          (let kept = filter (\<lambda>r. Null \<notin> set (row_key js r)) (rows df);
               keys = sort (remdups (map (row_key js) kept))
           in Inr (map (\<lambda>k. (k, df\<lparr>rows := filter (\<lambda>r. row_key js r = k) kept\<rparr>)) keys)))"

section \<open>Table normalization (processors.py, \<^verbatim>\<open>DataProcessor\<close>)\<close>

text \<open>
  The conversions of pandas that \<^verbatim>\<open>standardize_data_types\<close> and \<^verbatim>\<open>process_dataframe\<close>
  call are parameters of the model: \<^verbatim>\<open>pd.to_numeric(series, errors='ignore')\<close>,
  \<^verbatim>\<open>pd.to_datetime(series, errors='ignore')\<close>, each from a series (dtype and cells) to a
  series, and \<^verbatim>\<open>str(value)\<close> of a cell, which \<^verbatim>\<open>astype("string")\<close> applies to the cells
  that are not missing.
\<close>

record pandas_conv =
  to_numeric :: "dtype \<times> cell list \<Rightarrow> dtype \<times> cell list"
  to_datetime :: "dtype \<times> cell list \<Rightarrow> dtype \<times> cell list"
  str_value :: "cell \<Rightarrow> string"

definition remove_empty_rows_columns :: "dataframe \<Rightarrow> dataframe" where
  "remove_empty_rows_columns df = dropna_columns (dropna_rows df)"

text \<open>One iteration of the loop of \<^verbatim>\<open>standardize_data_types\<close>.\<close>

definition standardize_column :: "pandas_conv \<Rightarrow> string \<Rightarrow> dataframe \<Rightarrow> py_exception + dataframe" where
  "standardize_column pd col df =
     (if startswith col ''source_'' \<or> endswith col ''_timestamp'' then Inr df
      else case series_dtype df col of
        Inl e \<Rightarrow> Inl e
      | Inr dt \<Rightarrow>
          if dt = DObject then
            (let j = hd (positions col df);
                 series = (dt, column_cells j df);
                 numeric_converted = to_numeric pd series
             in if numeric_converted \<noteq> series then Inr (set_series j numeric_converted df)
                else if py_in ''date'' (lower col) \<or> py_in ''time'' (lower col) then
                  (let datetime_converted = to_datetime pd series
                   in if datetime_converted \<noteq> series
                      then Inr (set_series j datetime_converted df) else Inr df)
                else Inr df)
          else Inr df)"

fun standardize_loop :: "pandas_conv \<Rightarrow> string list \<Rightarrow> dataframe \<Rightarrow> py_exception + dataframe" where
  "standardize_loop pd [] df = Inr df"
| "standardize_loop pd (col # cols) df =
     (case standardize_column pd col df of
        Inl e \<Rightarrow> Inl e
      | Inr df' \<Rightarrow> standardize_loop pd cols df')"

definition standardize_data_types :: "pandas_conv \<Rightarrow> dataframe \<Rightarrow> py_exception + dataframe" where
  "standardize_data_types pd df = standardize_loop pd (columns df) df"

text \<open>
  \<^verbatim>\<open>re.search\<close> tries the start positions from the left and returns the first match;
  \<open>m\<close> is the match of the pattern at the start of a string.
\<close>

fun re_search :: "(string \<Rightarrow> 'a option) \<Rightarrow> string \<Rightarrow> 'a option" where
  "re_search m [] = m []"
| "re_search m (c # cs) = (case m (c # cs) of Some g \<Rightarrow> Some g | None \<Rightarrow> re_search m cs)"

text \<open>
  The pattern \<^verbatim>\<open>fleet\s*(\d+)\<close> at the start of a string: \<^verbatim>\<open>fleet\<close>, then all the white
  space that follows, then at least one digit; group 1 is the whole run of digits.
\<close>

definition match_fleet_at :: "string \<Rightarrow> string option" where
  "match_fleet_at s =
     (if startswith s ''fleet'' then
        (let digits = takeWhile is_digit (dropWhile is_space (drop 5 s))
         in if digits \<noteq> [] then Some digits else None)
      else None)"

text \<open>
  The pattern \<^verbatim>\<open>(\d{4})-(\d{4})\<close> at the start of a string: four digits, a hyphen and
  four digits; the groups are the two runs of four digits.
\<close>

definition match_range_at :: "string \<Rightarrow> (string \<times> string) option" where
  "match_range_at s =
     (if 9 \<le> length s \<and> list_all is_digit (take 4 s) \<and> s ! 4 = CHR ''-'' \<and>
         list_all is_digit (take 4 (drop 5 s))
      then Some (take 4 s, take 4 (drop 5 s)) else None)"

definition extract_fleet_info :: "dataframe \<Rightarrow> string \<Rightarrow> dataframe" where
  "extract_fleet_info df source_file =
     (let fleet_match = re_search match_fleet_at (lower source_file);
          df = (case fleet_match of
                  Some fleet_number \<Rightarrow> assign_scalar ''fleet_number'' (Str fleet_number) df
                | None \<Rightarrow> assign_scalar ''fleet_number'' Null df);
          bus_range_match = re_search match_range_at source_file
      in case bus_range_match of
           Some (start_bus, end_bus) \<Rightarrow>
             assign_scalar ''bus_range_end'' (Str end_bus)
               (assign_scalar ''bus_range_start'' (Str start_bus) df)
         | None \<Rightarrow> df)"

text \<open>\<^verbatim>\<open>df[col] = df[col].astype("string")\<close> for the column at position \<open>j\<close>.\<close>

definition astype_string :: "pandas_conv \<Rightarrow> nat \<Rightarrow> dataframe \<Rightarrow> dataframe" where
  "astype_string pd j df =
     df\<lparr>dtypes := (dtypes df)[j := DString],
        rows := map (\<lambda>r. r[j := (if r ! j = Null then Null else Str (str_value pd (r ! j)))]) (rows df)\<rparr>"

fun string_loop :: "pandas_conv \<Rightarrow> string list \<Rightarrow> dataframe \<Rightarrow> py_exception + dataframe" where
  "string_loop pd [] df = Inr df"
| "string_loop pd (col # cols) df =
     (case series_dtype df col of
        Inl e \<Rightarrow> Inl e
      | Inr dt \<Rightarrow>
          if dt = DObject then string_loop pd cols (astype_string pd (hd (positions col df)) df)
          else string_loop pd cols df)"

definition process_dataframe :: "pandas_conv \<Rightarrow> dataframe \<Rightarrow> string \<Rightarrow> py_exception + dataframe" where
  "process_dataframe pd df source_file =
     (let df = remove_empty_rows_columns df;
          df = clean_column_names df
      in case standardize_data_types pd df of
           Inl e \<Rightarrow> Inl e
         | Inr df \<Rightarrow>
             (let df = extract_fleet_info df source_file
              in string_loop pd (columns df) df))"

section \<open>Metrics (processors.py, \<^verbatim>\<open>FleetDataProcessor\<close>)\<close>

definition metric_keywords :: "string list" where
  "metric_keywords =
     [''performance'', ''efficiency'', ''utilization'', ''availability'',
      ''mileage'', ''hours'', ''cost'', ''maintenance'', ''downtime'',
      ''fuel'', ''emissions'', ''reliability'', ''rating'']"

definition identify_performance_metrics :: "dataframe \<Rightarrow> string list" where
  "identify_performance_metrics df =
     filter (\<lambda>col. list_ex (\<lambda>keyword. py_in keyword (lower col)) metric_keywords) (columns df)"

text \<open>
  The statistics tables are kept symbolic: \<open>Describe cs\<close> is \<^verbatim>\<open>describe()\<close> of the frame
  of the columns \<open>cs\<close>, \<open>GroupedDescribe g cs\<close> is
  \<^verbatim>\<open>df.groupby(g)[cs].describe()\<close>.
\<close>

datatype stats_table = Describe "string list" | GroupedDescribe string "string list"

definition calculate_summary_stats ::
    "dataframe \<Rightarrow> string option \<Rightarrow> py_exception + (string \<times> stats_table) list" where
  "calculate_summary_stats df group_by =
     (let metric_columns = identify_performance_metrics df
      in if metric_columns = [] then Inr []
         else
           (let summaries = [];
                numeric_df = [j \<leftarrow> concat (map (\<lambda>col. positions col df) metric_columns).
                                dtypes df ! j = DNumber];
                summaries = (if \<not> (numeric_df = [] \<or> rows df = [])
                             then AList.update ''overall''
                                    (Describe (map (\<lambda>j. columns df ! j) numeric_df)) summaries
                             else summaries)
            in case group_by of
                 None \<Rightarrow> Inr summaries
               | Some g \<Rightarrow>
                   if g \<noteq> [] \<and> g \<in> set (columns df) then
                     (case grouper_positions df [g] of
                        Inl e \<Rightarrow> Inl e
                      | Inr js \<Rightarrow>
                          Inr (AList.update ''by_group'' (GroupedDescribe g metric_columns) summaries))
                   else Inr summaries))"

section \<open>Validation (validators.py)\<close>

type_synonym rule_context = "(string \<times> string) list"

type_synonym rule_func = "dataframe \<Rightarrow> rule_context \<Rightarrow> py_exception + bool \<times> string"

record rule_info =
  func :: rule_func
  description :: string

record rule_outcome =
  rule_passed :: bool
  message :: string
  rule_description :: string

record validation_result =
  result_context :: rule_context
  shape :: "nat \<times> nat"
  result_columns :: "string list"
  rules :: "(string \<times> rule_outcome) list"
  passed :: bool
  warnings :: "string list"
  errors :: "string list"

record validator =
  validation_rules :: "(string \<times> rule_info) list"
  validation_results :: "validation_result list"

text \<open>\<^verbatim>\<open>DataValidator.__init__\<close> and \<^verbatim>\<open>add_rule\<close> (a dict keeps the insertion order of its keys).\<close>

definition new_validator :: validator where
  "new_validator = \<lparr>validation_rules = [], validation_results = []\<rparr>"

definition add_rule :: "string \<Rightarrow> rule_func \<Rightarrow> string \<Rightarrow> validator \<Rightarrow> validator" where
  "add_rule name rule_func descr v =
     v\<lparr>validation_rules :=
         AList.update name \<lparr>func = rule_func, description = descr\<rparr> (validation_rules v)\<rparr>"

text \<open>The body of the loop of \<^verbatim>\<open>validate_dataframe\<close>, for one registered rule.\<close>

definition run_rule ::
    "string \<Rightarrow> rule_info \<Rightarrow> dataframe \<Rightarrow> rule_context \<Rightarrow> validation_result \<Rightarrow> validation_result" where
  "run_rule rule_name info df ctx results =
     (case func info df ctx of
        Inr (p, msg) \<Rightarrow>
          (let results = results\<lparr>rules := AList.update rule_name
                 \<lparr>rule_passed = p, message = msg, rule_description = description info\<rparr>
                 (rules results)\<rparr>
           in if \<not> p then
                (let results = results\<lparr>passed := False\<rparr>
                 in if py_in ''error'' (lower msg)
                    then results\<lparr>errors := errors results @ [rule_name @ '': '' @ msg]\<rparr>
                    else results\<lparr>warnings := warnings results @ [rule_name @ '': '' @ msg]\<rparr>)
              else results)
      | Inl e \<Rightarrow>
          results\<lparr>rules := AList.update rule_name
                 \<lparr>rule_passed = False, message = ''Rule execution failed: '' @ exc_str e,
                  rule_description = description info\<rparr>
                 (rules results),
             passed := False,
             errors := errors results @ [rule_name @ '': Rule execution failed'']\<rparr>)"

fun validate_loop ::
    "(string \<times> rule_info) list \<Rightarrow> dataframe \<Rightarrow> rule_context \<Rightarrow> validation_result \<Rightarrow> validation_result" where
  "validate_loop [] df ctx results = results"
| "validate_loop ((rule_name, info) # rest) df ctx results =
     validate_loop rest df ctx (run_rule rule_name info df ctx results)"

definition validate_dataframe ::
    "validator \<Rightarrow> dataframe \<Rightarrow> rule_context \<Rightarrow> validation_result \<times> validator" where
  "validate_dataframe v df ctx =
     (let results = \<lparr>result_context = ctx, shape = (length (rows df), length (columns df)),
                     result_columns = columns df, rules = [], passed = True,
                     warnings = [], errors = []\<rparr>;
          results = validate_loop (validation_rules v) df ctx results
      in (results, v\<lparr>validation_results := validation_results v @ [results]\<rparr>))"

text \<open>
  \<^verbatim>\<open>get_validation_summary\<close> returns a dict; its values are integers, and the quotient
  \<^verbatim>\<open>passed / total\<close>, a float, is represented by the rational number it approximates.
\<close>

datatype pyval = PyInt int | PyFloat rat

definition get_validation_summary :: "validator \<Rightarrow> (string \<times> pyval) list" where
  "get_validation_summary v =
     (if validation_results v = [] then [(''total_validations'', PyInt 0)]
      else
        (let total = length (validation_results v);
             passed_count = length (filter passed (validation_results v))
         in [(''total_validations'', PyInt (int total)),
             (''passed'', PyInt (int passed_count)),
             (''failed'', PyInt (int total - int passed_count)),
             (''pass_rate'', if total > 0 then PyFloat (Fract (int passed_count) (int total))
                             else PyInt 0)]))"

text \<open>The rule \<^verbatim>\<open>required_columns\<close> of \<^verbatim>\<open>FleetDataValidator\<close>.\<close>

definition has_required_columns :: rule_func where
  "has_required_columns df ctx =
     (let required_cols = [''source_file'', ''ingestion_timestamp''];
          missing_cols = filter (\<lambda>col. col \<notin> set (columns df)) required_cols
      in if missing_cols \<noteq> [] then Inr (False, ''Missing required columns: '' @ repr_list missing_cols)
         else Inr (True, ''All required columns present''))"

text \<open>
  The rule \<^verbatim>\<open>valid_fleet_numbers\<close>. Two things of pandas are parameters:
  \<open>to_num\<close> is \<^verbatim>\<open>pd.to_numeric(_, errors='coerce')\<close> on one value (\<open>None\<close> is the
  \<^verbatim>\<open>NaN\<close> of a value that does not parse), and \<open>fmt_range\<close> prints
  \<^verbatim>\<open>{numeric_fleets.min()}-{numeric_fleets.max()}\<close> for the parsed values. With a label
  \<^verbatim>\<open>fleet_number\<close> that occurs twice, \<^verbatim>\<open>df['fleet_number']\<close> is a DataFrame: \<^verbatim>\<open>dropna()\<close>
  drops the rows with any missing value, and \<^verbatim>\<open>pd.to_numeric\<close> raises a TypeError, which
  the rule catches.
\<close>

definition valid_fleet_numbers :: "(cell \<Rightarrow> rat option) \<Rightarrow> (rat list \<Rightarrow> string) \<Rightarrow> rule_func" where
  "valid_fleet_numbers to_num fmt_range df ctx =
     (if ''fleet_number'' \<notin> set (columns df) then Inr (True, ''No fleet_number column to validate'')
      else case positions ''fleet_number'' df of
        [j] \<Rightarrow>
          (let fleet_numbers = filter (\<lambda>c. c \<noteq> Null) (column_cells j df)
           in if fleet_numbers = [] then Inr (True, ''No fleet numbers to validate'')
              else
                (let numeric_fleets = map to_num fleet_numbers;
                     invalid_fleets = filter (\<lambda>x. x = None) numeric_fleets
                 in if invalid_fleets \<noteq> [] then
                      Inr (False, ''Invalid fleet number format in '' @
                                  string_of_nat (length invalid_fleets) @ '' rows'')
                    else
                      (let numbers = List.map_filter (\<lambda>x. x) numeric_fleets;
                           out_of_range = filter (\<lambda>x. x < 1 \<or> x > 999) numbers
                       in if out_of_range \<noteq> [] then
                            Inr (False, ''Fleet numbers out of range (1-999): '' @
                                        string_of_nat (length out_of_range) @ '' rows'')
                          else
                            Inr (True, ''All fleet numbers valid (range: '' @
                                       fmt_range numbers @ '')''))))
      | js \<Rightarrow>
          (let frame = filter (\<lambda>r. Null \<notin> set (row_key js r)) (rows df)
           in if frame = [] then Inr (True, ''No fleet numbers to validate'')
              else Inr (False, ''Error validating fleet numbers: '' @
                               ''arg must be a list, tuple, 1-d array, or Series'')))"

section \<open>Partitioned output (writers.py, \<^verbatim>\<open>PartitionedWriter\<close>)\<close>

text \<open>
  One file written by \<^verbatim>\<open>write_partitioned\<close>: \<open>path_segments\<close> are the directories
  \<^verbatim>\<open><col>=<val>\<close> below the output directory, in order; \<open>file_name\<close> is
  \<^verbatim>\<open><filename>.parquet\<close>; \<open>group_values\<close> is the key of the group; \<open>partition_data\<close> is
  the table handed to \<^verbatim>\<open>to_parquet\<close>.
\<close>

record written_partition =
  path_segments :: "string list"
  file_name :: string
  group_values :: "cell list"
  partition_data :: dataframe

text \<open>\<^verbatim>\<open>sep.join(xs)\<close>\<close>

fun py_join :: "string \<Rightarrow> string list \<Rightarrow> string" where
  "py_join sep [] = []"
| "py_join sep [s] = s"
| "py_join sep (s # t # ss) = s @ sep @ py_join sep (t # ss)"

text \<open>
  Two things of Python are parameters of the writer. \<open>str_key\<close> is \<^verbatim>\<open>str(v)\<close> of a key
  value that is not a text (\<^verbatim>\<open>str\<close> of a text is the text). \<open>format\<close> is
  \<^verbatim>\<open>filename_template.format(group=group_str)\<close>, which raises for a template it rejects
  (a single brace, a field other than \<^verbatim>\<open>group\<close>).
\<close>

definition key_text :: "(cell \<Rightarrow> string) \<Rightarrow> cell \<Rightarrow> string" where
  "key_text str_key v = (case v of Str s \<Rightarrow> s | _ \<Rightarrow> str_key v)"

text \<open>
  The loop over the groups. An exception of \<^verbatim>\<open>format\<close> ends the call: nothing is
  returned, and the group it was raised for and the groups after it are not written.
\<close>

fun write_groups ::
    "(cell \<Rightarrow> string) \<Rightarrow> (string \<Rightarrow> string \<Rightarrow> py_exception + string) \<Rightarrow> string list \<Rightarrow> string \<Rightarrow>
     (cell list \<times> dataframe) list \<Rightarrow> py_exception + written_partition list" where
  "write_groups str_key format partition_columns filename_template [] = Inr []"
| "write_groups str_key format partition_columns filename_template ((key_values, group_df) # rest) =
     (let partition_path = map (\<lambda>(col, val). col @ ''='' @ key_text str_key val)
                             (zip partition_columns key_values);
          group_str = py_join ''_'' (map (key_text str_key) key_values)
      in case format filename_template group_str of
           Inl e \<Rightarrow> Inl e
         | Inr filename \<Rightarrow>
             (case write_groups str_key format partition_columns filename_template rest of
                Inl e \<Rightarrow> Inl e
              | Inr written_files \<Rightarrow>
                  Inr (\<lparr>path_segments = partition_path, file_name = filename @ ''.parquet'',
                        group_values = key_values, partition_data = group_df\<rparr> # written_files)))"

definition write_partitioned ::
    "(cell \<Rightarrow> string) \<Rightarrow> (string \<Rightarrow> string \<Rightarrow> py_exception + string) \<Rightarrow>
     dataframe \<Rightarrow> string list \<Rightarrow> string \<Rightarrow> py_exception + written_partition list" where
  "write_partitioned str_key format df partition_columns filename_template =
     (case groupby df partition_columns of
        Inl e \<Rightarrow> Inl e
      | Inr grouped \<Rightarrow> write_groups str_key format partition_columns filename_template grouped)"

text \<open>The partitioning step of \<^verbatim>\<open>create_consolidated_dataset\<close> (pipeline.py).\<close>

definition partition_consolidated ::
    "(cell \<Rightarrow> string) \<Rightarrow> (string \<Rightarrow> string \<Rightarrow> py_exception + string) \<Rightarrow>
     dataframe \<Rightarrow> py_exception + written_partition list" where
  "partition_consolidated str_key format consolidated_df =
     (if ''fleet_number'' \<in> set (columns consolidated_df)
      then write_partitioned str_key format consolidated_df [''fleet_number''] ''fleet_data''
      else Inr [])"

section \<open>Auxiliary notions used in the proofs\<close>

text \<open>A string without two adjacent underscores.\<close>

definition no_double :: "string \<Rightarrow> bool" where
  "no_double s = (\<nexists>p q. s = p @ ''__'' @ q)"

text \<open>
  The shape of a cleaned label: word characters that \<^verbatim>\<open>lower()\<close> leaves alone, no two
  adjacent underscores, no underscore at either end.
\<close>

definition canonical :: "string \<Rightarrow> bool" where
  "canonical s \<longleftrightarrow> (\<forall>c\<in>set s. is_word c \<and> lower_char c = c) \<and> no_double s \<and>
     (s \<noteq> [] \<longrightarrow> hd s \<noteq> CHR ''_'' \<and> last s \<noteq> CHR ''_'')"

text \<open>The label the loop of \<^verbatim>\<open>clean_column_names\<close> gives the column at position \<open>i\<close>.\<close>

definition final_name :: "nat \<Rightarrow> string \<Rightarrow> string" where
  "final_name i col =
     (let clean_col = clean_name col
      in if clean_col \<noteq> [] then clean_col else ''col_'' @ string_of_nat i)"

text \<open>
  An instance of the parameter \<open>to_num\<close> for running \<^verbatim>\<open>valid_fleet_numbers\<close> on concrete
  tables: a number stays, a text made of decimal digits is read as that number, and any
  other value is \<^verbatim>\<open>NaN\<close>. This is \<^verbatim>\<open>pd.to_numeric(_, errors='coerce')\<close> on those values
  (pandas reads further spellings of numbers, which the examples do not use).
\<close>

definition digits_value :: "string \<Rightarrow> nat" where
  "digits_value s = foldl (\<lambda>a c. 10 * a + (of_char c - 48)) 0 s"

fun coerce_decimal :: "cell \<Rightarrow> rat option" where
  "coerce_decimal Null = None"
| "coerce_decimal (Num r) = Some r"
| "coerce_decimal (Str s) =
     (if s \<noteq> [] \<and> list_all is_digit s then Some (of_nat (digits_value s)) else None)"

text \<open>A validation result with nothing but its overall outcome, for concrete histories.\<close>

definition bare_result :: "bool \<Rightarrow> validation_result" where
  "bare_result p = \<lparr>result_context = [], shape = (0, 0), result_columns = [], rules = [],
     passed = p, warnings = [], errors = []\<rparr>"

text \<open>What \<^verbatim>\<open>validate_dataframe\<close> records for one rule: its own outcome, or the failure
  that stands for the exception it raised.\<close>

definition outcome_of :: "rule_info \<Rightarrow> dataframe \<Rightarrow> rule_context \<Rightarrow> rule_outcome" where
  "outcome_of info df ctx =
     (case func info df ctx of
        Inr (p, msg) \<Rightarrow> \<lparr>rule_passed = p, message = msg, rule_description = description info\<rparr>
      | Inl e \<Rightarrow> \<lparr>rule_passed = False, message = ''Rule execution failed: '' @ exc_str e,
                  rule_description = description info\<rparr>)"

text \<open>A registry with a rule that fails, a rule that raises and a rule that passes.\<close>

definition example_validator :: validator where
  "example_validator =
     add_rule ''always_passes'' (\<lambda>df ctx. Inr (True, ''fine'')) ''a rule that passes''
       (add_rule ''broken'' (\<lambda>df ctx. Inl (OtherError ''boom'')) ''a rule that raises''
         (add_rule ''required_columns'' has_required_columns
            ''Check that all required metadata columns are present'' new_validator))"

text \<open>A row has a missing value in one of the partition columns.\<close>

definition null_key :: "dataframe \<Rightarrow> string list \<Rightarrow> cell list \<Rightarrow> bool" where
  "null_key df cols r \<longleftrightarrow> (\<exists>col\<in>set cols. \<exists>j\<in>set (positions col df). r ! j = Null)"

text \<open>
  Instances of the two parameters of the writer for the examples, whose keys are texts and
  whose template has no brace: \<^verbatim>\<open>str.format\<close> returns a template without braces as it
  is (the instance refuses every other template, which the examples do not use), and
  \<open>str_key\<close> is never consulted.
\<close>

definition format_plain :: "string \<Rightarrow> string \<Rightarrow> py_exception + string" where
  "format_plain template group_str =
     (if CHR ''{'' \<in> set template \<or> CHR ''}'' \<in> set template
      then Inl (ValueError ''template with braces'') else Inr template)"

definition no_str_key :: "cell \<Rightarrow> string" where
  "no_str_key v = []"

text \<open>
  The second table has the rows and the leading columns of the first, and the same cells
  in every column of the first whose label is not among \<open>names\<close>.
\<close>

definition same_cells_except :: "string list \<Rightarrow> dataframe \<Rightarrow> dataframe \<Rightarrow> bool" where
  "same_cells_except names df df' \<longleftrightarrow>
     length (rows df') = length (rows df) \<and>
     take (length (columns df)) (columns df') = columns df \<and>
     (\<forall>i<length (rows df). \<forall>j<length (columns df).
        columns df ! j \<notin> set names \<longrightarrow> rows df' ! i ! j = rows df ! i ! j)"

text \<open>A consolidated table with one row without fleet number, and its partitions.\<close>

definition example_consolidated :: dataframe where
  "example_consolidated =
     \<lparr>columns = [''bus'', ''fleet_number''], dtypes = [DNumber, DString],
      rows = [[Num 1, Str ''2''], [Num 2, Null], [Num 3, Str ''1'']]\<rparr>"

definition example_partitions :: "written_partition list" where
  "example_partitions =
     [\<lparr>path_segments = [''fleet_number=1''], file_name = ''fleet_data.parquet'',
       group_values = [Str ''1''],
       partition_data = \<lparr>columns = [''bus'', ''fleet_number''], dtypes = [DNumber, DString],
                          rows = [[Num 3, Str ''1'']]\<rparr>\<rparr>,
      \<lparr>path_segments = [''fleet_number=2''], file_name = ''fleet_data.parquet'',
       group_values = [Str ''2''],
       partition_data = \<lparr>columns = [''bus'', ''fleet_number''], dtypes = [DNumber, DString],
                          rows = [[Num 1, Str ''2'']]\<rparr>\<rparr>]"


text \<open>
  What the two patterns of \<^verbatim>\<open>extract_fleet_info\<close> mean, stated on the source identifier
  itself. \<open>fleet_here t g\<close>: the pattern \<^verbatim>\<open>fleet\s*(\d+)\<close> matches at the start of \<open>t\<close>,
  ignoring case, and captures \<open>g\<close> (the digits up to the first character that is not a
  digit). \<open>fleet_match_ci s\<close>: the pattern matches somewhere in \<open>s\<close>.
  \<open>fleet_capture s g\<close>: \<open>g\<close> is the group of the leftmost match.
\<close>

definition fleet_here :: "string \<Rightarrow> string \<Rightarrow> bool" where
  "fleet_here t g \<longleftrightarrow>
     (\<exists>w ws post. t = w @ ws @ g @ post \<and> lower w = ''fleet'' \<and> (\<forall>c\<in>set ws. is_space c) \<and>
        g \<noteq> [] \<and> (\<forall>c\<in>set g. is_digit c) \<and> (post \<noteq> [] \<longrightarrow> \<not> is_digit (hd post)))"

definition fleet_match_ci :: "string \<Rightarrow> bool" where
  "fleet_match_ci s \<longleftrightarrow> (\<exists>n\<le>length s. \<exists>g. fleet_here (drop n s) g)"

definition fleet_capture :: "string \<Rightarrow> string \<Rightarrow> bool" where
  "fleet_capture s g \<longleftrightarrow>
     (\<exists>n\<le>length s. fleet_here (drop n s) g \<and> (\<forall>k<n. \<nexists>g'. fleet_here (drop k s) g'))"

text \<open>The same for \<^verbatim>\<open>(\d{4})-(\d{4})\<close> and its two groups.\<close>

definition range_here :: "string \<Rightarrow> string \<Rightarrow> string \<Rightarrow> bool" where
  "range_here t a b \<longleftrightarrow>
     (\<exists>post. t = a @ ''-'' @ b @ post \<and> length a = 4 \<and> length b = 4 \<and>
        (\<forall>c\<in>set a. is_digit c) \<and> (\<forall>c\<in>set b. is_digit c))"

definition range_match :: "string \<Rightarrow> bool" where
  "range_match s \<longleftrightarrow> (\<exists>n\<le>length s. \<exists>a b. range_here (drop n s) a b)"

definition range_capture :: "string \<Rightarrow> string \<Rightarrow> string \<Rightarrow> bool" where
  "range_capture s a b \<longleftrightarrow>
     (\<exists>n\<le>length s. range_here (drop n s) a b \<and> (\<forall>k<n. \<nexists>a' b'. range_here (drop k s) a' b'))"

text \<open>Every row of the table has the value \<open>v\<close> in the column(s) labelled \<open>name\<close>.\<close>

definition has_column_value :: "dataframe \<Rightarrow> string \<Rightarrow> cell \<Rightarrow> bool" where
  "has_column_value df name v \<longleftrightarrow>
     name \<in> set (columns df) \<and>
     (\<forall>r\<in>set (rows df). \<forall>j<length (columns df). columns df ! j = name \<longrightarrow> r ! j = v)"

text \<open>A decoded sheet with one numeric column and two rows.\<close>

definition example_sheet :: dataframe where
  "example_sheet = \<lparr>columns = [''bus''], dtypes = [DNumber], rows = [[Num 1], [Num 2]]\<rparr>"

text \<open>
  Two decoded sheets, and an instance of the conversions of pandas for tables whose
  object columns hold texts that are neither numbers nor dates: \<^verbatim>\<open>to_numeric\<close> and
  \<^verbatim>\<open>to_datetime\<close> with \<^verbatim>\<open>errors='ignore'\<close> return such a column as it is, and \<^verbatim>\<open>str\<close> of
  a text is the text.
\<close>

definition example_raw :: dataframe where
  "example_raw = \<lparr>columns = [''Bus No''], dtypes = [DNumber], rows = [[Num 1], [Num 2]]\<rparr>"

definition example_fuel_raw :: dataframe where
  "example_fuel_raw = \<lparr>columns = [''Fuel Type''], dtypes = [DObject], rows = [[Str ''diesel'']]\<rparr>"

definition example_conv :: pandas_conv where
  "example_conv = \<lparr>to_numeric = (\<lambda>s. s), to_datetime = (\<lambda>s. s),
     str_value = (\<lambda>c. case c of Str s \<Rightarrow> s | _ \<Rightarrow> [])\<rparr>"

section \<open>Properties of the string operations\<close>

lemma lower_char_idem: "lower_char (lower_char c) = lower_char c"
  by (auto simp: lower_char_def is_upper_def Let_def)

lemma space_not_word: "is_space c \<Longrightarrow> \<not> is_word c"
  by (auto simp: is_space_def is_word_def Let_def)

lemma underscore_facts:
  "is_word (CHR ''_'')" "\<not> is_space (CHR ''_'')" "lower_char (CHR ''_'') = CHR ''_''"
  by (simp_all add: is_word_def is_space_def lower_char_def is_upper_def)

lemma digit_facts:
  assumes "is_digit c"
  shows "is_word c" "lower_char c = c" "c \<noteq> CHR ''_''"
  using assms by (auto simp: is_digit_def is_word_def lower_char_def is_upper_def Let_def)

lemma re_sub_plus_none: "\<forall>c\<in>set s. \<not> P c \<Longrightarrow> re_sub_plus P s = s"
  by (induction s) auto

lemma set_re_sub_plus: "set (re_sub_plus P s) \<subseteq> insert (CHR ''_'') (set s)"
proof (induction P s rule: re_sub_plus.induct)
  case (1 P)
  then show ?case by simp
next
  case (2 P c cs)
  then show ?case using set_dropWhileD [of _ P cs] by auto
qed

lemma no_double_Cons:
  "no_double (c # cs) \<longleftrightarrow> no_double cs \<and> \<not> (c = CHR ''_'' \<and> cs \<noteq> [] \<and> hd cs = CHR ''_'')"
proof
  assume a: "no_double (c # cs)"
  have "no_double cs"
    unfolding no_double_def
  proof
    assume "\<exists>p q. cs = p @ ''__'' @ q"
    then obtain p q where "cs = p @ ''__'' @ q" by blast
    then have "c # cs = (c # p) @ ''__'' @ q" by simp
    with a show False unfolding no_double_def by blast
  qed
  moreover have "\<not> (c = CHR ''_'' \<and> cs \<noteq> [] \<and> hd cs = CHR ''_'')"
  proof
    assume h: "c = CHR ''_'' \<and> cs \<noteq> [] \<and> hd cs = CHR ''_''"
    then have "c # cs = [] @ ''__'' @ tl cs" by (cases cs) auto
    with a show False unfolding no_double_def by blast
  qed
  ultimately show "no_double cs \<and> \<not> (c = CHR ''_'' \<and> cs \<noteq> [] \<and> hd cs = CHR ''_'')" by blast
next
  assume a: "no_double cs \<and> \<not> (c = CHR ''_'' \<and> cs \<noteq> [] \<and> hd cs = CHR ''_'')"
  show "no_double (c # cs)"
    unfolding no_double_def
  proof
    assume "\<exists>p q. c # cs = p @ ''__'' @ q"
    then obtain p q where pq: "c # cs = p @ ''__'' @ q" by blast
    show False
    proof (cases p)
      case Nil
      with pq a show ?thesis by auto
    next
      case (Cons x p')
      with pq have "cs = p' @ ''__'' @ q" by simp
      with a show ?thesis unfolding no_double_def by blast
    qed
  qed
qed

lemma no_double_Nil [simp]: "no_double []"
  by (simp add: no_double_def)

lemma no_double_rev: "no_double (rev s) = no_double s"
proof -
  have "\<And>s. \<not> no_double s \<Longrightarrow> \<not> no_double (rev s)"
  proof -
    fix s assume "\<not> no_double s"
    then obtain p q where "s = p @ ''__'' @ q" unfolding no_double_def by blast
    then have "rev s = rev q @ ''__'' @ rev p" by simp
    then show "\<not> no_double (rev s)" unfolding no_double_def by blast
  qed
  from this [of s] this [of "rev s"] show ?thesis by auto
qed

lemma no_double_dropWhile: "no_double s \<Longrightarrow> no_double (dropWhile P s)"
  by (induction s) (auto simp: no_double_Cons)

lemma no_double_strip: "no_double s \<Longrightarrow> no_double (strip_chars P s)"
  by (simp add: strip_chars_def no_double_rev no_double_dropWhile)

lemma re_sub_plus_hd:
  "s \<noteq> [] \<Longrightarrow> \<not> P (hd s) \<Longrightarrow> re_sub_plus P s \<noteq> [] \<and> hd (re_sub_plus P s) = hd s"
  by (cases s) auto

lemma no_double_squeeze: "no_double (re_sub_plus (\<lambda>c. c = CHR ''_'') s)"
proof (induction "\<lambda>c. c = CHR ''_''" s rule: re_sub_plus.induct)
  case 1
  then show ?case by simp
next
  case (2 c cs)
  show ?case
  proof (cases "c = CHR ''_''")
    case True
    let ?d = "dropWhile (\<lambda>c. c = CHR ''_'') cs"
    have nd: "no_double (re_sub_plus (\<lambda>c. c = CHR ''_'') ?d)" using 2 True by simp
    have "?d \<noteq> [] \<Longrightarrow> hd (re_sub_plus (\<lambda>c. c = CHR ''_'') ?d) \<noteq> CHR ''_''"
      using re_sub_plus_hd [of ?d "\<lambda>c. c = CHR ''_''"] hd_dropWhile [of "\<lambda>c. c = CHR ''_''" cs]
      by auto
    then have "re_sub_plus (\<lambda>c. c = CHR ''_'') ?d \<noteq> [] \<Longrightarrow>
        hd (re_sub_plus (\<lambda>c. c = CHR ''_'') ?d) \<noteq> CHR ''_''"
      by (cases "?d = []") (simp_all only: re_sub_plus.simps not_False_eq_True)
    then show ?thesis using nd True by (auto simp: no_double_Cons)
  next
    case False
    then show ?thesis using 2 by (simp add: no_double_Cons)
  qed
qed

lemma squeeze_id: "no_double s \<Longrightarrow> re_sub_plus (\<lambda>c. c = CHR ''_'') s = s"
proof (induction s)
  case Nil
  then show ?case by simp
next
  case (Cons c cs)
  then have nd: "no_double cs" and h: "\<not> (c = CHR ''_'' \<and> cs \<noteq> [] \<and> hd cs = CHR ''_'')"
    by (simp_all add: no_double_Cons)
  show ?case
  proof (cases "c = CHR ''_''")
    case True
    with h have "dropWhile (\<lambda>c. c = CHR ''_'') cs = cs" by (cases cs) auto
    with True Cons.IH nd show ?thesis by simp
  next
    case False
    with Cons.IH nd show ?thesis by simp
  qed
qed

lemma set_strip_chars: "set (strip_chars P s) \<subseteq> set s"
  using set_dropWhileD [of _ P s] set_dropWhileD [of _ P "rev (dropWhile P s)"]
  by (auto simp: strip_chars_def)

lemma last_dropWhile: "dropWhile P s \<noteq> [] \<Longrightarrow> last (dropWhile P s) = last s"
proof (induction s)
  case Nil
  then show ?case by simp
next
  case (Cons a s)
  show ?case
  proof (cases "P a")
    case True
    with Cons.prems have ne: "dropWhile P s \<noteq> []" by simp
    then have "s \<noteq> []" by auto
    with True Cons.IH [OF ne] show ?thesis by simp
  next
    case False
    then show ?thesis by simp
  qed
qed

lemma strip_chars_ends:
  assumes "strip_chars P s \<noteq> []"
  shows "\<not> P (hd (strip_chars P s))" "\<not> P (last (strip_chars P s))"
proof -
  let ?t = "dropWhile P s"
  let ?u = "dropWhile P (rev ?t)"
  from assms have u: "?u \<noteq> []" by (simp add: strip_chars_def)
  have t: "?t \<noteq> []"
  proof
    assume e: "?t = []"
    have "?u = []" unfolding e by simp
    with u show False by contradiction
  qed
  have "hd (strip_chars P s) = last ?u" using u by (simp add: strip_chars_def hd_rev)
  also have "\<dots> = last (rev ?t)" using u by (rule last_dropWhile)
  also have "\<dots> = hd ?t" using t by (simp add: last_rev)
  finally show "\<not> P (hd (strip_chars P s))" using hd_dropWhile [OF t] by simp
  have "last (strip_chars P s) = hd ?u" using u by (simp add: strip_chars_def last_rev)
  then show "\<not> P (last (strip_chars P s))" using hd_dropWhile [OF u] by simp
qed

lemma strip_chars_id:
  assumes "s \<noteq> [] \<longrightarrow> \<not> P (hd s) \<and> \<not> P (last s)"
  shows "strip_chars P s = s"
proof (cases s)
  case Nil
  then show ?thesis by (simp add: strip_chars_def)
next
  case (Cons c cs)
  with assms have a: "\<not> P (hd s)" and b: "\<not> P (last s)" by auto
  from a Cons have 1: "dropWhile P s = s" by simp
  have "rev s \<noteq> []" using Cons by simp
  moreover have "hd (rev s) = last s" using Cons by (simp add: hd_rev)
  ultimately have "dropWhile P (rev s) = rev s" using b by (simp only: dropWhile_eq_self_iff) simp
  with 1 show ?thesis by (simp add: strip_chars_def)
qed

lemma canonical_clean_name: "canonical (clean_name s)"
proof -
  let ?a = "strip_chars is_space (lower s)"
  let ?b = "re_sub_plus is_space ?a"
  let ?c = "filter is_word ?b"
  let ?d = "re_sub_plus (\<lambda>c. c = CHR ''_'') ?c"
  let ?e = "strip_chars (\<lambda>c. c = CHR ''_'') ?d"
  have e: "clean_name s = ?e" by (simp add: clean_name_def Let_def)
  have a: "\<forall>c\<in>set ?a. lower_char c = c"
    using set_strip_chars [of is_space "lower s"] by (auto simp: lower_def lower_char_idem)
  have b: "\<forall>c\<in>set ?b. lower_char c = c"
    using a set_re_sub_plus [of is_space ?a] by (auto simp: underscore_facts)
  have c: "\<forall>c\<in>set ?c. is_word c \<and> lower_char c = c" using b by auto
  have d: "\<forall>c\<in>set ?d. is_word c \<and> lower_char c = c"
    using c set_re_sub_plus [of "\<lambda>c. c = CHR ''_''" ?c] by (auto simp: underscore_facts)
  have 1: "\<forall>c\<in>set ?e. is_word c \<and> lower_char c = c"
    using d set_strip_chars [of "\<lambda>c. c = CHR ''_''" ?d] by blast
  have 2: "no_double ?e" by (rule no_double_strip) (rule no_double_squeeze)
  have 3: "?e \<noteq> [] \<longrightarrow> hd ?e \<noteq> CHR ''_'' \<and> last ?e \<noteq> CHR ''_''"
    using strip_chars_ends [of "\<lambda>c. c = CHR ''_''" ?d] by blast
  show ?thesis unfolding canonical_def e using 1 2 3 by blast
qed

lemma clean_name_canonical:
  assumes "canonical s"
  shows "clean_name s = s"
proof -
  from assms have w: "\<forall>c\<in>set s. is_word c" and l: "\<forall>c\<in>set s. lower_char c = c"
    and nd: "no_double s" and ends: "s \<noteq> [] \<longrightarrow> hd s \<noteq> CHR ''_'' \<and> last s \<noteq> CHR ''_''"
    by (auto simp: canonical_def)
  have 1: "lower s = s" using l by (simp add: lower_def map_idI)
  have nsp: "\<forall>c\<in>set s. \<not> is_space c" using w space_not_word by blast
  have "s \<noteq> [] \<longrightarrow> \<not> is_space (hd s) \<and> \<not> is_space (last s)" using nsp by auto
  then have 2: "strip_chars is_space s = s" by (rule strip_chars_id)
  have 3: "re_sub_plus is_space s = s" using nsp by (rule re_sub_plus_none)
  have 4: "filter is_word s = s" using w by simp
  have 5: "re_sub_plus (\<lambda>c. c = CHR ''_'') s = s" using nd by (rule squeeze_id)
  have 6: "strip_chars (\<lambda>c. c = CHR ''_'') s = s" using ends by (intro strip_chars_id) simp
  show ?thesis by (simp add: clean_name_def Let_def 1 2 3 4 5 6)
qed

lemma clean_name_idem: "clean_name (clean_name s) = clean_name s"
  by (rule clean_name_canonical) (rule canonical_clean_name)

lemma string_of_nat_digits: "string_of_nat n \<noteq> [] \<and> (\<forall>c\<in>set (string_of_nat n). is_digit c)"
proof (induction n rule: string_of_nat.induct)
  case (1 n)
  show ?case
  proof (cases "n < 10")
    case True
    then have "string_of_nat n = [char_of (48 + n)]" by (simp add: string_of_nat.simps)
    moreover have "is_digit (char_of (48 + n))" using True by (simp add: is_digit_def)
    ultimately show ?thesis by simp
  next
    case False
    then have e: "string_of_nat n = string_of_nat (n div 10) @ [char_of (48 + n mod 10)]"
      by (subst string_of_nat.simps) simp
    have "n mod 10 < 10" by simp
    then have "is_digit (char_of (48 + n mod 10))"
      by (simp add: is_digit_def mod_less)
    with 1 False e show ?thesis by auto
  qed
qed

lemma no_double_no_underscore: "\<forall>c\<in>set s. c \<noteq> CHR ''_'' \<Longrightarrow> no_double s"
  by (induction s) (auto simp: no_double_Cons)

lemma canonical_fallback: "canonical (''col_'' @ string_of_nat i)"
proof -
  let ?d = "string_of_nat i"
  have d: "?d \<noteq> []" "\<forall>c\<in>set ?d. is_digit c" using string_of_nat_digits by blast+
  have du: "\<forall>c\<in>set ?d. c \<noteq> CHR ''_''" using d(2) digit_facts(3) by blast
  have w: "\<forall>c\<in>set (''col_'' @ ?d). is_word c \<and> lower_char c = c"
    using d(2) digit_facts(1,2)
    by (auto simp: is_word_def lower_char_def is_upper_def)
  have "hd ?d \<noteq> CHR ''_''" using d(1) du by (cases ?d) auto
  then have nd: "no_double (''col_'' @ ?d)"
    using no_double_no_underscore [OF du] by (simp add: no_double_Cons)
  have "last ?d \<in> set ?d" using d(1) by simp
  then have "last ?d \<noteq> CHR ''_''" using du by blast
  then have e: "hd (''col_'' @ ?d) \<noteq> CHR ''_'' \<and> last (''col_'' @ ?d) \<noteq> CHR ''_''"
    using d(1) by simp
  show ?thesis unfolding canonical_def using w nd e by blast
qed

lemma final_name_nonempty: "final_name i col \<noteq> []"
  by (simp add: final_name_def Let_def)

lemma canonical_final_name: "canonical (final_name i col)"
proof (cases "clean_name col = []")
  case True
  then have "final_name i col = ''col_'' @ string_of_nat i" by (simp add: final_name_def)
  then show ?thesis by (simp only: canonical_fallback)
next
  case False
  then have "final_name i col = clean_name col" by (simp add: final_name_def)
  then show ?thesis by (simp only: canonical_clean_name)
qed

lemma final_name_idem: "final_name i (final_name i col) = final_name i col"
  using clean_name_canonical [OF canonical_final_name [of i col]] final_name_nonempty [of i col]
  by (simp add: final_name_def [of i "final_name i col"] Let_def)

lemma clean_loop_eq:
  "clean_loop acc cols = acc @ map (\<lambda>(i, col). final_name i col) (enumerate (length acc) cols)"
  by (induction cols arbitrary: acc) (simp_all add: final_name_def Let_def)

lemma clean_loop_idem: "clean_loop [] (clean_loop [] cols) = clean_loop [] cols"
proof -
  have "map (\<lambda>(i, col). final_name i col) (enumerate n (map (\<lambda>(i, col). final_name i col) (enumerate n cols)))
      = map (\<lambda>(i, col). final_name i col) (enumerate n cols)" for n
    by (induction cols arbitrary: n) (simp_all add: final_name_idem)
  then show ?thesis by (simp add: clean_loop_eq)
qed

lemma final_names_nonempty:
  "[] \<notin> set (map clean_name cols) \<Longrightarrow>
   map (\<lambda>(i, col). final_name i col) (enumerate n cols) = map clean_name cols"
  by (induction cols arbitrary: n) (auto simp: final_name_def)

section \<open>Properties of the table operations\<close>

lemma string_of_nat_1: "string_of_nat (Suc 0) = ''1''"
  by code_simp

lemma positions_iff:
  "j \<in> set (positions name df) \<longleftrightarrow> j < length (columns df) \<and> columns df ! j = name"
  by (auto simp: positions_def)

lemma positions_label: "j \<in> set (positions name df) \<Longrightarrow> name \<in> set (columns df)"
  using nth_mem [of j "columns df"] by (auto simp: positions_iff)

section \<open>Properties of the validation loop\<close>

lemma update_fresh: "k \<notin> fst ` set al \<Longrightarrow> AList.update k v al = al @ [(k, v)]"
  by (induction al) auto

lemma run_rule_rules:
  "rule_name \<notin> fst ` set (rules results) \<Longrightarrow>
   rules (run_rule rule_name info df ctx results) =
     rules results @ [(rule_name, outcome_of info df ctx)]"
  by (auto simp: run_rule_def outcome_of_def update_fresh Let_def split: sum.splits prod.splits)

lemma run_rule_passed:
  "passed (run_rule rule_name info df ctx results) =
     (passed results \<and> rule_passed (outcome_of info df ctx))"
  by (auto simp: run_rule_def outcome_of_def Let_def split: sum.splits prod.splits)

lemma validate_loop_rules:
  "distinct (map fst reg) \<Longrightarrow> fst ` set (rules results) \<inter> fst ` set reg = {} \<Longrightarrow>
   rules (validate_loop reg df ctx results) =
     rules results @ map (\<lambda>(name, info). (name, outcome_of info df ctx)) reg"
proof (induction reg arbitrary: results)
  case Nil
  then show ?case by simp
next
  case (Cons a reg)
  obtain name info where a: "a = (name, info)" by (cases a)
  have fresh: "name \<notin> fst ` set (rules results)" using Cons.prems(2) a by auto
  have r: "rules (run_rule name info df ctx results) =
      rules results @ [(name, outcome_of info df ctx)]"
    using fresh by (rule run_rule_rules)
  have d: "distinct (map fst reg)" using Cons.prems(1) by simp
  have n: "name \<notin> fst ` set reg" using Cons.prems(1) a by (simp add: image_iff) 
  have "fst ` set (rules (run_rule name info df ctx results)) \<inter> fst ` set reg = {}"
    unfolding r using Cons.prems(2) n a by auto
  from Cons.IH [OF d this] show ?case unfolding a by (simp add: r)
qed

lemma validate_loop_passed:
  "passed (validate_loop reg df ctx results) =
     (passed results \<and> list_all (\<lambda>(name, info). rule_passed (outcome_of info df ctx)) reg)"
proof (induction reg arbitrary: results)
  case Nil
  then show ?case by simp
next
  case (Cons a reg)
  obtain name info where a: "a = (name, info)" by (cases a)
  show ?case unfolding a by (simp add: Cons.IH run_rule_passed)
qed

lemma startswith_append: "startswith (p @ s) p"
  by (induction p) auto

lemma add_rule_distinct:
  "distinct (map fst (validation_rules v)) \<Longrightarrow>
   distinct (map fst (validation_rules (add_rule name f d v)))"
  by (simp add: add_rule_def distinct_update)

lemma validate_dataframe_fst:
  "fst (validate_dataframe v df ctx) =
     validate_loop (validation_rules v) df ctx
       \<lparr>result_context = ctx, shape = (length (rows df), length (columns df)),
        result_columns = columns df, rules = [], passed = True, warnings = [], errors = []\<rparr>"
  by (simp add: validate_dataframe_def Let_def)

lemma validate_dataframe_snd:
  "validation_results (snd (validate_dataframe v df ctx)) =
     validation_results v @ [fst (validate_dataframe v df ctx)]"
  by (simp add: validate_dataframe_def Let_def)

lemma validate_dataframe_outcomes:
  assumes "distinct (map fst (validation_rules v))"
  shows "rules (fst (validate_dataframe v df ctx)) =
           map (\<lambda>(name, info). (name, outcome_of info df ctx)) (validation_rules v)"
  unfolding validate_dataframe_fst
  by (subst validate_loop_rules [OF assms]) simp_all

lemma validate_dataframe_passed:
  "passed (fst (validate_dataframe v df ctx)) =
     list_all (\<lambda>(name, info). rule_passed (outcome_of info df ctx)) (validation_rules v)"
  unfolding validate_dataframe_fst by (simp add: validate_loop_passed)

lemma map_of_outcomes:
  assumes "distinct (map fst reg)" and "(name, info) \<in> set reg"
  shows "map_of (map (\<lambda>(name, info). (name, f info)) reg) name = Some (f info)"
  using assms by (induction reg) (auto simp: image_iff)

lemma example_names: "map fst (validation_rules example_validator) =
    [''required_columns'', ''broken'', ''always_passes'']"
  by code_simp

lemma example_run:
  "map (\<lambda>(name, out). (name, rule_passed out, message out))
     (rules (fst (validate_dataframe example_validator
        \<lparr>columns = [''bus''], dtypes = [DNumber], rows = [[Num 1]]\<rparr> []))) =
   [(''required_columns'', False,
       ''Missing required columns: ['' @ [CHR 0x27] @ ''source_file'' @ [CHR 0x27] @ '', '' @
       [CHR 0x27] @ ''ingestion_timestamp'' @ [CHR 0x27] @ '']''),
    (''broken'', False, ''Rule execution failed: boom''),
    (''always_passes'', True, ''fine'')]"
  by code_simp

lemma example_rules:
  "validation_rules example_validator =
     [(''required_columns'', \<lparr>func = has_required_columns,
          description = ''Check that all required metadata columns are present''\<rparr>),
      (''broken'', \<lparr>func = (\<lambda>df ctx. Inl (OtherError ''boom'')), description = ''a rule that raises''\<rparr>),
      (''always_passes'', \<lparr>func = (\<lambda>df ctx. Inr (True, ''fine'')), description = ''a rule that passes''\<rparr>)]"
  by (simp add: example_validator_def add_rule_def new_validator_def)

section \<open>Properties of grouping\<close>

lemma grouper_positions_spec:
  "grouper_positions df cols = Inr js \<Longrightarrow> list_all2 (\<lambda>col j. positions col df = [j]) cols js"
proof (induction cols arbitrary: js)
  case Nil
  then show ?case by simp
next
  case (Cons col cols)
  from Cons.prems obtain j js' where p: "positions col df = [j]"
    and g: "grouper_positions df cols = Inr js'" and js: "js = j # js'"
    by (auto split: list.splits sum.splits)
  from Cons.IH [OF g] p js show ?case by simp
qed

lemma null_in_row_key:
  assumes "list_all2 (\<lambda>col j. positions col df = [j]) cols js"
  shows "Null \<in> set (row_key js r) \<longleftrightarrow> null_key df cols r"
  using assms
proof (induction cols js rule: list_all2_induct)
  case Nil
  then show ?case by (simp add: row_key_def null_key_def)
next
  case (Cons col cols j js)
  have "null_key df (col # cols) r \<longleftrightarrow> r ! j = Null \<or> null_key df cols r"
    using Cons.hyps(1) by (simp add: null_key_def)
  moreover have "Null \<in> set (row_key (j # js) r) \<longleftrightarrow> r ! j = Null \<or> Null \<in> set (row_key js r)"
    by (auto simp: row_key_def)
  ultimately show ?case using Cons.IH by simp
qed

lemma mset_concat_groups:
  "distinct ks \<Longrightarrow>
   mset (concat (map (\<lambda>k. filter (\<lambda>r. f r = k) xs) ks)) = mset (filter (\<lambda>r. f r \<in> set ks) xs)"
proof (induction ks)
  case Nil
  then show ?case by simp
next
  case (Cons k ks)
  then have k: "k \<notin> set ks" and d: "distinct ks" by simp_all
  have "mset (filter (\<lambda>r. f r = k) xs) + mset (filter (\<lambda>r. f r \<in> set ks) xs) =
        mset (filter (\<lambda>r. f r \<in> set (k # ks)) xs)"
    using k by (induction xs) auto
  with Cons.IH [OF d] show ?case by simp
qed


lemma write_groups_Inr:
  "write_groups sv fmt cols t grouped = Inr parts \<Longrightarrow>
   map group_values parts = map fst grouped \<and> map partition_data parts = map snd grouped"
proof (induction grouped arbitrary: parts)
  case Nil
  then show ?case by simp
next
  case (Cons g grouped)
  obtain vals group_df where g: "g = (vals, group_df)" by (cases g)
  from Cons.prems obtain filename rest where
    r: "write_groups sv fmt cols t grouped = Inr rest" and
    p: "parts = \<lparr>path_segments = map (\<lambda>(col, val). col @ ''='' @ key_text sv val) (zip cols vals),
                 file_name = filename @ ''.parquet'', group_values = vals,
                 partition_data = group_df\<rparr> # rest"
    unfolding g by (auto simp: Let_def split: sum.splits)
  from Cons.IH [OF r] show ?case unfolding p g by simp
qed

lemma write_partitioned_Inr:
  assumes "write_partitioned sv fmt df cols t = Inr parts"
  shows "\<exists>js. cols \<noteq> [] \<and> grouper_positions df cols = Inr js \<and>
     map group_values parts =
       sort (remdups (map (row_key js) (filter (\<lambda>r. Null \<notin> set (row_key js r)) (rows df)))) \<and>
     map (\<lambda>p. rows (partition_data p)) parts =
       map (\<lambda>k. filter (\<lambda>r. row_key js r = k) (filter (\<lambda>r. Null \<notin> set (row_key js r)) (rows df)))
         (sort (remdups (map (row_key js) (filter (\<lambda>r. Null \<notin> set (row_key js r)) (rows df)))))"
proof -
  from assms obtain grouped where g: "groupby df cols = Inr grouped"
    and w: "write_groups sv fmt cols t grouped = Inr parts"
    by (auto simp: write_partitioned_def split: sum.splits)
  from write_groups_Inr [OF w] have pv: "map group_values parts = map fst grouped"
    and pd: "map partition_data parts = map snd grouped" by simp_all
  from g have ne: "cols \<noteq> []" by (auto simp: groupby_def split: if_splits)
  from g ne obtain js where js: "grouper_positions df cols = Inr js"
    and gr: "grouped = map (\<lambda>k. (k, df\<lparr>rows := filter (\<lambda>r. row_key js r = k)
                (filter (\<lambda>r. Null \<notin> set (row_key js r)) (rows df))\<rparr>))
              (sort (remdups (map (row_key js) (filter (\<lambda>r. Null \<notin> set (row_key js r)) (rows df)))))"
    by (auto simp: groupby_def Let_def split: sum.splits)
  have 1: "map group_values parts =
       sort (remdups (map (row_key js) (filter (\<lambda>r. Null \<notin> set (row_key js r)) (rows df))))"
    unfolding pv gr by (simp add: comp_def)
  have "map (\<lambda>p. rows (partition_data p)) parts = map rows (map partition_data parts)"
    by (simp add: comp_def)
  also have "\<dots> =
       map (\<lambda>k. filter (\<lambda>r. row_key js r = k) (filter (\<lambda>r. Null \<notin> set (row_key js r)) (rows df)))
         (sort (remdups (map (row_key js) (filter (\<lambda>r. Null \<notin> set (row_key js r)) (rows df)))))"
    unfolding pd gr by (simp add: comp_def)
  finally have 2: "map (\<lambda>p. rows (partition_data p)) parts =
       map (\<lambda>k. filter (\<lambda>r. row_key js r = k) (filter (\<lambda>r. Null \<notin> set (row_key js r)) (rows df)))
         (sort (remdups (map (row_key js) (filter (\<lambda>r. Null \<notin> set (row_key js r)) (rows df)))))" .
  from ne js 1 2 show ?thesis by blast
qed

lemma partition_rows_mset:
  assumes "write_partitioned sv fmt df cols t = Inr parts"
  shows "mset (concat (map (\<lambda>p. rows (partition_data p)) parts)) =
         filter_mset (\<lambda>r. \<not> null_key df cols r) (mset (rows df))"
proof -
  from write_partitioned_Inr [OF assms] obtain js where
    js: "grouper_positions df cols = Inr js" and
    m: "map (\<lambda>p. rows (partition_data p)) parts =
       map (\<lambda>k. filter (\<lambda>r. row_key js r = k) (filter (\<lambda>r. Null \<notin> set (row_key js r)) (rows df)))
         (sort (remdups (map (row_key js) (filter (\<lambda>r. Null \<notin> set (row_key js r)) (rows df)))))"
    by blast
  let ?kept = "filter (\<lambda>r. Null \<notin> set (row_key js r)) (rows df)"
  let ?keys = "sort (remdups (map (row_key js) ?kept))"
  have d: "distinct ?keys" by simp
  have s: "set ?keys = row_key js ` set ?kept" by simp
  have "mset (concat (map (\<lambda>p. rows (partition_data p)) parts)) =
        mset (filter (\<lambda>r. row_key js r \<in> set ?keys) ?kept)"
    unfolding m using d by (rule mset_concat_groups)
  also have "filter (\<lambda>r. row_key js r \<in> set ?keys) ?kept = ?kept"
    unfolding s by (rule filter_True) blast
  also have "mset ?kept = filter_mset (\<lambda>r. \<not> null_key df cols r) (mset (rows df))"
    using null_in_row_key [OF grouper_positions_spec [OF js]] by simp
  finally show ?thesis .
qed

lemma example_write:
  "write_partitioned no_str_key format_plain example_consolidated [''fleet_number''] ''fleet_data'' =
     Inr example_partitions"
  by code_simp

lemma example_consolidated_partitions:
  "partition_consolidated no_str_key format_plain example_consolidated = Inr example_partitions"
  by code_simp

lemma example_null_row:
  "[Num 2, Null] \<in> set (rows example_consolidated) \<and>
   null_key example_consolidated [''fleet_number''] [Num 2, Null]"
  by code_simp







section \<open>Properties of the pattern searches\<close>

lemma re_search_None: "re_search m s = None \<longleftrightarrow> (\<forall>n\<le>length s. m (drop n s) = None)"
proof (induction s)
  case Nil
  then show ?case by simp
next
  case (Cons c cs)
  show ?case
  proof (cases "m (c # cs)")
    case None
    have "(\<forall>n\<le>length (c # cs). m (drop n (c # cs)) = None) \<longleftrightarrow>
          (\<forall>n\<le>length cs. m (drop n cs) = None)"
    proof
      assume a: "\<forall>n\<le>length (c # cs). m (drop n (c # cs)) = None"
      show "\<forall>n\<le>length cs. m (drop n cs) = None"
      proof (intro allI impI)
        fix n assume "n \<le> length cs"
        with a have "m (drop (Suc n) (c # cs)) = None" by (metis Suc_le_mono length_Cons)
        then show "m (drop n cs) = None" by simp
      qed
    next
      assume a: "\<forall>n\<le>length cs. m (drop n cs) = None"
      show "\<forall>n\<le>length (c # cs). m (drop n (c # cs)) = None"
      proof (intro allI impI)
        fix n assume n: "n \<le> length (c # cs)"
        show "m (drop n (c # cs)) = None"
        proof (cases n)
          case 0
          with None show ?thesis by simp
        next
          case (Suc k)
          with n a show ?thesis by simp
        qed
      qed
    qed
    with None Cons.IH show ?thesis by simp
  next
    case (Some g)
    then have "\<not> (\<forall>n\<le>length (c # cs). m (drop n (c # cs)) = None)"
      by (metis drop0 le0 option.distinct(1))
    with Some show ?thesis by simp
  qed
qed

lemma re_search_Some:
  "re_search m s = Some g \<Longrightarrow>
   \<exists>n\<le>length s. m (drop n s) = Some g \<and> (\<forall>k<n. m (drop k s) = None)"
proof (induction s)
  case Nil
  then show ?case by simp
next
  case (Cons c cs)
  show ?case
  proof (cases "m (c # cs)")
    case None
    with Cons.prems have "re_search m cs = Some g" by simp
    from Cons.IH [OF this] obtain n where n: "n \<le> length cs" "m (drop n cs) = Some g"
      "\<forall>k<n. m (drop k cs) = None" by blast
    have "\<forall>k<Suc n. m (drop k (c # cs)) = None"
    proof (intro allI impI)
      fix k assume "k < Suc n"
      then show "m (drop k (c # cs)) = None" using None n(3) by (cases k) simp_all
    qed
    moreover have "Suc n \<le> length (c # cs)" "m (drop (Suc n) (c # cs)) = Some g"
      using n by simp_all
    ultimately show ?thesis by blast
  next
    case (Some g')
    with Cons.prems have "m (drop 0 (c # cs)) = Some g" by simp
    then show ?thesis by blast
  qed
qed

lemma space_lower: "is_space (lower_char c) = is_space c"
  by (auto simp: lower_char_def is_upper_def is_space_def Let_def)

lemma digit_lower: "is_digit (lower_char c) = is_digit c"
  by (auto simp: lower_char_def is_upper_def is_digit_def Let_def)

lemma digit_lower_id: "is_digit (lower_char c) \<Longrightarrow> lower_char c = c"
  using digit_facts(2) [of c] by (simp add: digit_lower)

lemma digit_not_space: "is_digit c \<Longrightarrow> \<not> is_space c"
  by (auto simp: is_digit_def is_space_def Let_def)

lemma startswith_iff: "startswith s p \<longleftrightarrow> take (length p) s = p"
  by (induction s p rule: startswith.induct) auto

lemma dropWhile_space_lower: "dropWhile is_space (lower x) = lower (dropWhile is_space x)"
  by (simp add: lower_def dropWhile_map comp_def space_lower)

lemma takeWhile_digit_lower: "takeWhile is_digit (lower x) = takeWhile is_digit x"
proof -
  have "takeWhile is_digit (lower x) = map lower_char (takeWhile is_digit x)"
    by (simp add: lower_def takeWhile_map comp_def digit_lower)
  also have "\<dots> = takeWhile is_digit x"
    by (rule map_idI) (auto dest!: set_takeWhileD simp: digit_facts(2))
  finally show ?thesis .
qed

lemma match_fleet_at_lower:
  "match_fleet_at (lower t) =
     (if lower (take 5 t) = ''fleet'' then
        (let digits = takeWhile is_digit (dropWhile is_space (drop 5 t))
         in if digits \<noteq> [] then Some digits else None)
      else None)"
proof -
  have l: "length ''fleet'' = 5" by simp
  have tl: "take 5 (lower t) = lower (take 5 t)" by (simp only: lower_def take_map)
  have 1: "startswith (lower t) ''fleet'' \<longleftrightarrow> lower (take 5 t) = ''fleet''"
    unfolding startswith_iff l tl ..
  have 2: "takeWhile is_digit (dropWhile is_space (drop 5 (lower t))) =
           takeWhile is_digit (dropWhile is_space (drop 5 t))"
  proof -
    have "drop 5 (lower t) = lower (drop 5 t)" by (simp add: lower_def drop_map)
    then show ?thesis by (simp only: dropWhile_space_lower takeWhile_digit_lower)
  qed
  show ?thesis unfolding match_fleet_at_def 1 2 ..
qed

lemma takeWhile_stop: "post \<noteq> [] \<longrightarrow> \<not> P (hd post) \<Longrightarrow> takeWhile P post = []"
  by (cases post) auto

lemma match_fleet_at_iff: "match_fleet_at (lower t) = Some g \<longleftrightarrow> fleet_here t g"
proof
  assume m: "match_fleet_at (lower t) = Some g"
  let ?r = "dropWhile is_space (drop 5 t)"
  from m have w: "lower (take 5 t) = ''fleet''" and g: "g = takeWhile is_digit ?r" and ne: "g \<noteq> []"
    by (auto simp: match_fleet_at_lower Let_def split: if_splits)
  have "t = take 5 t @ drop 5 t" by simp
  also have "drop 5 t = takeWhile is_space (drop 5 t) @ ?r" by simp
  also have "?r = g @ dropWhile is_digit ?r" unfolding g by simp
  finally have t: "t = take 5 t @ takeWhile is_space (drop 5 t) @ g @ dropWhile is_digit ?r" .
  have sp: "\<forall>c\<in>set (takeWhile is_space (drop 5 t)). is_space c" by (auto dest: set_takeWhileD)
  have dg: "\<forall>c\<in>set g. is_digit c" unfolding g by (auto dest: set_takeWhileD)
  have st: "dropWhile is_digit ?r \<noteq> [] \<longrightarrow> \<not> is_digit (hd (dropWhile is_digit ?r))"
    using hd_dropWhile [of is_digit ?r] by blast
  show "fleet_here t g" unfolding fleet_here_def using t w sp ne dg st by blast
next
  assume "fleet_here t g"
  then obtain w ws post where t: "t = w @ ws @ g @ post" and w: "lower w = ''fleet''"
    and sp: "\<forall>c\<in>set ws. is_space c" and ne: "g \<noteq> []" and dg: "\<forall>c\<in>set g. is_digit c"
    and st: "post \<noteq> [] \<longrightarrow> \<not> is_digit (hd post)"
    unfolding fleet_here_def by blast
  from w have "length (lower w) = 5" by simp
  then have lw: "length w = 5" by (simp add: lower_def)
  have tk: "take 5 t = w" and dr: "drop 5 t = ws @ g @ post" using t lw by simp_all
  have "\<not> is_space (hd g)" using ne dg digit_not_space by (cases g) auto
  then have "dropWhile is_space (g @ post) = g @ post" using ne by (cases g) auto
  then have d1: "dropWhile is_space (drop 5 t) = g @ post"
    unfolding dr using sp by (simp add: dropWhile_append2)
  have d2: "takeWhile is_digit (g @ post) = g"
    using dg takeWhile_stop [of post is_digit] st by (simp add: takeWhile_append2)
  show "match_fleet_at (lower t) = Some g"
    unfolding match_fleet_at_lower tk d1 d2 using w ne by simp
qed

lemma match_range_at_iff: "match_range_at t = Some (a, b) \<longleftrightarrow> range_here t a b"
proof
  assume m: "match_range_at t = Some (a, b)"
  then have len: "9 \<le> length t" and a: "a = take 4 t" and b: "b = take 4 (drop 5 t)"
    and h: "t ! 4 = CHR ''-''" and da: "list_all is_digit (take 4 t)"
    and db: "list_all is_digit (take 4 (drop 5 t))"
    by (auto simp: match_range_at_def split: if_splits)
  have "t = take 4 t @ drop 4 t" by simp
  also have "drop 4 t = t ! 4 # drop 5 t"
    using Cons_nth_drop_Suc [of 4 t] len by simp
  also have "drop 5 t = take 4 (drop 5 t) @ drop 4 (drop 5 t)"
    by (rule append_take_drop_id [symmetric])
  finally have t: "t = a @ ''-'' @ b @ drop 4 (drop 5 t)" unfolding a b h by simp
  have la: "length a = 4" and lb: "length b = 4" using len unfolding a b by simp_all
  show "range_here t a b"
    unfolding range_here_def using t la lb da db unfolding a b list_all_iff by blast
next
  assume "range_here t a b"
  then obtain post where t: "t = a @ ''-'' @ b @ post" and la: "length a = 4" and lb: "length b = 4"
    and da: "\<forall>c\<in>set a. is_digit c" and db: "\<forall>c\<in>set b. is_digit c"
    unfolding range_here_def by blast
  have 1: "take 4 t = a" using t la by simp
  have 2: "t ! 4 = CHR ''-''" using t la by (simp add: nth_append)
  have "drop 5 t = b @ post" using t la by simp
  then have 3: "take 4 (drop 5 t) = b" using lb by simp
  have 4: "9 \<le> length t" using t la lb by simp
  show "match_range_at t = Some (a, b)"
    unfolding match_range_at_def 1 2 3 using 4 da db by (simp add: list_all_iff)
qed

lemma search_fleet_Some:
  assumes "re_search match_fleet_at (lower s) = Some g"
  shows "fleet_capture s g"
proof -
  have d: "drop k (lower s) = lower (drop k s)" for k by (simp add: lower_def drop_map)
  from re_search_Some [OF assms] obtain n where n: "n \<le> length s"
    "match_fleet_at (lower (drop n s)) = Some g"
    "\<forall>k<n. match_fleet_at (lower (drop k s)) = None"
    unfolding d by (auto simp: lower_def)
  from n(2) have 1: "fleet_here (drop n s) g" by (simp only: match_fleet_at_iff)
  have 2: "\<forall>k<n. \<nexists>g'. fleet_here (drop k s) g'"
    using n(3) match_fleet_at_iff by (metis option.distinct(1))
  from n(1) 1 2 show ?thesis unfolding fleet_capture_def by blast
qed

lemma search_fleet_None: "re_search match_fleet_at (lower s) = None \<longleftrightarrow> \<not> fleet_match_ci s"
proof -
  have d: "drop k (lower s) = lower (drop k s)" for k by (simp add: lower_def drop_map)
  have l: "length (lower s) = length s" by (simp add: lower_def)
  have "re_search match_fleet_at (lower s) = None \<longleftrightarrow>
        (\<forall>n\<le>length s. match_fleet_at (lower (drop n s)) = None)"
    unfolding re_search_None d l ..
  also have "\<dots> \<longleftrightarrow> (\<forall>n\<le>length s. \<forall>g. \<not> fleet_here (drop n s) g)"
    using match_fleet_at_iff by (metis option.distinct(1) option.exhaust)
  finally show ?thesis unfolding fleet_match_ci_def by blast
qed

lemma search_range_Some:
  assumes "re_search match_range_at s = Some (a, b)"
  shows "range_capture s a b"
proof -
  from re_search_Some [OF assms] obtain n where n: "n \<le> length s"
    "match_range_at (drop n s) = Some (a, b)" "\<forall>k<n. match_range_at (drop k s) = None"
    by blast
  from n(2) have 1: "range_here (drop n s) a b" by (simp only: match_range_at_iff)
  have 2: "\<forall>k<n. \<nexists>a' b'. range_here (drop k s) a' b'"
    using n(3) match_range_at_iff by (metis option.distinct(1))
  from n(1) 1 2 show ?thesis unfolding range_capture_def by blast
qed

lemma search_range_None: "re_search match_range_at s = None \<longleftrightarrow> \<not> range_match s"
proof -
  have "re_search match_range_at s = None \<longleftrightarrow>
        (\<forall>n\<le>length s. match_range_at (drop n s) = None)"
    by (rule re_search_None)
  also have "\<dots> \<longleftrightarrow> (\<forall>n\<le>length s. \<forall>a b. \<not> range_here (drop n s) a b)"
    using match_range_at_iff by (metis option.distinct(1) option.exhaust surj_pair)
  finally show ?thesis unfolding range_match_def by blast
qed

section \<open>Properties of column assignment and key derivation\<close>

lemma wf_df_iff:
  "wf_df df \<longleftrightarrow> length (dtypes df) = length (columns df) \<and>
     (\<forall>r\<in>set (rows df). length r = length (columns df))"
  by (simp add: wf_df_def list_all_iff)

lemma assign_scalar_columns:
  "columns (assign_scalar name v df) =
     (if name \<in> set (columns df) then columns df else columns df @ [name])"
  by (simp add: assign_scalar_def)

lemma assign_scalar_wf: "wf_df df \<Longrightarrow> wf_df (assign_scalar name v df)"
  by (auto simp: wf_df_iff assign_scalar_def)

lemma assign_scalar_value:
  assumes "wf_df df"
  shows "has_column_value (assign_scalar name v df) name v"
proof (cases "name \<in> set (columns df)")
  case True
  have "r ! j = v" if r: "r \<in> set (rows (assign_scalar name v df))"
    and j: "j < length (columns df)" "columns df ! j = name" for r j
  proof -
    from r True obtain r0 where r0: "r0 \<in> set (rows df)"
      and e: "r = map (\<lambda>(c, x). if c = name then v else x) (zip (columns df) r0)"
      by (auto simp: assign_scalar_def)
    have "length r0 = length (columns df)" using assms r0 by (simp add: wf_df_iff)
    then show ?thesis unfolding e using j by simp
  qed
  then show ?thesis using True by (simp add: has_column_value_def assign_scalar_columns)
next
  case False
  have "r ! j = v" if r: "r \<in> set (rows (assign_scalar name v df))"
    and j: "j < length (columns df @ [name])" "(columns df @ [name]) ! j = name" for r j
  proof -
    from r False obtain r0 where r0: "r0 \<in> set (rows df)" and e: "r = r0 @ [v]"
      by (auto simp: assign_scalar_def)
    have l: "length r0 = length (columns df)" using assms r0 by (simp add: wf_df_iff)
    have "j = length (columns df)"
    proof (rule ccontr)
      assume "j \<noteq> length (columns df)"
      with j(1) have jl: "j < length (columns df)" by simp
      with j(2) have "columns df ! j = name" by (simp add: nth_append)
      with jl False show False using nth_mem by metis
    qed
    then show ?thesis unfolding e using l by (simp add: nth_append)
  qed
  then show ?thesis using False by (simp add: has_column_value_def assign_scalar_columns)
qed

lemma assign_scalar_other:
  assumes "wf_df df" and "name' \<noteq> name" and "has_column_value df name' v'"
  shows "has_column_value (assign_scalar name v df) name' v'"
proof -
  from assms(3) have m: "name' \<in> set (columns df)"
    and all: "\<forall>r\<in>set (rows df). \<forall>j<length (columns df). columns df ! j = name' \<longrightarrow> r ! j = v'"
    by (simp_all add: has_column_value_def)
  show ?thesis
  proof (cases "name \<in> set (columns df)")
    case True
    have "r ! j = v'" if r: "r \<in> set (rows (assign_scalar name v df))"
      and j: "j < length (columns df)" "columns df ! j = name'" for r j
    proof -
      from r True obtain r0 where r0: "r0 \<in> set (rows df)"
        and e: "r = map (\<lambda>(c, x). if c = name then v else x) (zip (columns df) r0)"
        by (auto simp: assign_scalar_def)
      have "length r0 = length (columns df)" using assms(1) r0 by (simp add: wf_df_iff)
      then have "r ! j = r0 ! j" unfolding e using j assms(2) by simp
      with all r0 j show ?thesis by simp
    qed
    then show ?thesis using True m by (simp add: has_column_value_def assign_scalar_columns)
  next
    case False
    have "r ! j = v'" if r: "r \<in> set (rows (assign_scalar name v df))"
      and j: "j < length (columns df @ [name])" "(columns df @ [name]) ! j = name'" for r j
    proof -
      from r False obtain r0 where r0: "r0 \<in> set (rows df)" and e: "r = r0 @ [v]"
        by (auto simp: assign_scalar_def)
      have l: "length r0 = length (columns df)" using assms(1) r0 by (simp add: wf_df_iff)
      have jl: "j < length (columns df)"
      proof (rule ccontr)
        assume "\<not> j < length (columns df)"
        with j(1) have "j = length (columns df)" by simp
        with j(2) assms(2) show False by simp
      qed
      with j(2) have "columns df ! j = name'" by (simp add: nth_append)
      with all r0 jl have "r0 ! j = v'" by simp
      then show ?thesis unfolding e using jl l by (simp add: nth_append)
    qed
    then show ?thesis using False m by (simp add: has_column_value_def assign_scalar_columns)
  qed
qed

lemma re_search_leftmost:
  assumes "n \<le> length s" and "m (drop n s) = Some g" and "\<forall>k<n. m (drop k s) = None"
  shows "re_search m s = Some g"
proof -
  have "re_search m s \<noteq> None" using assms(1,2) by (auto simp: re_search_None)
  then obtain g' where g': "re_search m s = Some g'" by blast
  from re_search_Some [OF g'] obtain n' where n': "n' \<le> length s" "m (drop n' s) = Some g'"
    "\<forall>k<n'. m (drop k s) = None" by blast
  have "\<not> n' < n" using assms(3) n'(2) by auto
  moreover have "\<not> n < n'" using n'(3) assms(2) by auto
  ultimately have "n' = n" by simp
  with n'(2) assms(2) have "g' = g" by simp
  with g' show ?thesis by simp
qed

lemma search_fleet_iff: "re_search match_fleet_at (lower s) = Some g \<longleftrightarrow> fleet_capture s g"
proof
  assume "re_search match_fleet_at (lower s) = Some g"
  then show "fleet_capture s g" by (rule search_fleet_Some)
next
  assume "fleet_capture s g"
  then obtain n where n: "n \<le> length s" "fleet_here (drop n s) g"
    "\<forall>k<n. \<nexists>g'. fleet_here (drop k s) g'" unfolding fleet_capture_def by blast
  have d: "drop k (lower s) = lower (drop k s)" for k by (simp add: lower_def drop_map)
  have 1: "n \<le> length (lower s)" using n(1) by (simp add: lower_def)
  have 2: "match_fleet_at (drop n (lower s)) = Some g" unfolding d using n(2)
    by (simp only: match_fleet_at_iff)
  have 3: "\<forall>k<n. match_fleet_at (drop k (lower s)) = None"
    unfolding d using n(3) match_fleet_at_iff by (metis option.exhaust)
  from 1 2 3 show "re_search match_fleet_at (lower s) = Some g" by (rule re_search_leftmost)
qed

lemma search_range_iff: "re_search match_range_at s = Some (a, b) \<longleftrightarrow> range_capture s a b"
proof
  assume "re_search match_range_at s = Some (a, b)"
  then show "range_capture s a b" by (rule search_range_Some)
next
  assume "range_capture s a b"
  then obtain n where n: "n \<le> length s" "range_here (drop n s) a b"
    "\<forall>k<n. \<nexists>a' b'. range_here (drop k s) a' b'" unfolding range_capture_def by blast
  have 2: "match_range_at (drop n s) = Some (a, b)" using n(2) by (simp only: match_range_at_iff)
  have 3: "\<forall>k<n. match_range_at (drop k s) = None"
    using n(3) match_range_at_iff by (metis option.exhaust surj_pair)
  from n(1) 2 3 show "re_search match_range_at s = Some (a, b)" by (rule re_search_leftmost)
qed

lemma extract_fleet_info_fleet:
  assumes "wf_df df"
  shows "has_column_value (extract_fleet_info df s) ''fleet_number''
           (case re_search match_fleet_at (lower s) of Some g \<Rightarrow> Str g | None \<Rightarrow> Null)"
proof -
  let ?v = "case re_search match_fleet_at (lower s) of Some g \<Rightarrow> Str g | None \<Rightarrow> Null"
  let ?df1 = "assign_scalar ''fleet_number'' ?v df"
  have w1: "wf_df ?df1" using assms by (rule assign_scalar_wf)
  have h1: "has_column_value ?df1 ''fleet_number'' ?v" using assms by (rule assign_scalar_value)
  show ?thesis
  proof (cases "re_search match_range_at s")
    case None
    then have "extract_fleet_info df s = ?df1"
      by (simp add: extract_fleet_info_def split: option.splits)
    with h1 show ?thesis by simp
  next
    case (Some ab)
    obtain a b where ab: "ab = (a, b)" by (cases ab)
    let ?df2 = "assign_scalar ''bus_range_start'' (Str a) ?df1"
    have e: "extract_fleet_info df s = assign_scalar ''bus_range_end'' (Str b) ?df2"
      using Some ab by (simp add: extract_fleet_info_def split: option.splits)
    have w2: "wf_df ?df2" using w1 by (rule assign_scalar_wf)
    have h2: "has_column_value ?df2 ''fleet_number'' ?v"
      using w1 _ h1 by (rule assign_scalar_other) simp
    have "has_column_value (assign_scalar ''bus_range_end'' (Str b) ?df2) ''fleet_number'' ?v"
      using w2 _ h2 by (rule assign_scalar_other) simp
    then show ?thesis unfolding e .
  qed
qed

lemma extract_fleet_info_range:
  assumes "wf_df df" and "re_search match_range_at s = Some (a, b)"
  shows "has_column_value (extract_fleet_info df s) ''bus_range_start'' (Str a) \<and>
         has_column_value (extract_fleet_info df s) ''bus_range_end'' (Str b)"
proof -
  let ?v = "case re_search match_fleet_at (lower s) of Some g \<Rightarrow> Str g | None \<Rightarrow> Null"
  let ?df1 = "assign_scalar ''fleet_number'' ?v df"
  let ?df2 = "assign_scalar ''bus_range_start'' (Str a) ?df1"
  have e: "extract_fleet_info df s = assign_scalar ''bus_range_end'' (Str b) ?df2"
    using assms(2) by (simp add: extract_fleet_info_def split: option.splits)
  have w1: "wf_df ?df1" using assms(1) by (rule assign_scalar_wf)
  have w2: "wf_df ?df2" using w1 by (rule assign_scalar_wf)
  have h2: "has_column_value ?df2 ''bus_range_start'' (Str a)" using w1 by (rule assign_scalar_value)
  have 1: "has_column_value (assign_scalar ''bus_range_end'' (Str b) ?df2) ''bus_range_start'' (Str a)"
    using w2 _ h2 by (rule assign_scalar_other) simp
  have 2: "has_column_value (assign_scalar ''bus_range_end'' (Str b) ?df2) ''bus_range_end'' (Str b)"
    using w2 by (rule assign_scalar_value)
  from 1 2 show ?thesis unfolding e by blast
qed

lemma extract_fleet_info_no_range:
  assumes "re_search match_range_at s = None"
  shows "columns (extract_fleet_info df s) =
     (if ''fleet_number'' \<in> set (columns df) then columns df else columns df @ [''fleet_number''])"
  using assms by (simp add: extract_fleet_info_def assign_scalar_columns split: option.splits)

lemma fleet_match_ciI: "re_search match_fleet_at (lower s) = Some g \<Longrightarrow> fleet_match_ci s"
  using search_fleet_None [of s] by auto

lemma not_fleet_match_ciI: "re_search match_fleet_at (lower s) = None \<Longrightarrow> \<not> fleet_match_ci s"
  using search_fleet_None [of s] by auto

lemma range_matchI: "re_search match_range_at s = Some ab \<Longrightarrow> range_match s"
  using search_range_None [of s] by auto

lemma not_range_matchI: "re_search match_range_at s = None \<Longrightarrow> \<not> range_match s"
  using search_range_None [of s] by auto

lemma assign_scalar_same_cells:
  assumes "wf_df df"
  shows "same_cells_except [name] df (assign_scalar name v df)"
proof -
  have 1: "length (rows (assign_scalar name v df)) = length (rows df)"
    by (simp add: assign_scalar_def)
  have 2: "take (length (columns df)) (columns (assign_scalar name v df)) = columns df"
    by (simp add: assign_scalar_columns)
  have 3: "rows (assign_scalar name v df) ! i ! j = rows df ! i ! j"
    if i: "i < length (rows df)" and j: "j < length (columns df)" and n: "columns df ! j \<noteq> name"
    for i j
  proof -
    have m: "rows df ! i \<in> set (rows df)" using i by simp
    then have l: "length (rows df ! i) = length (columns df)" using assms by (simp add: wf_df_iff)
    show ?thesis
    proof (cases "name \<in> set (columns df)")
      case True
      then have "rows (assign_scalar name v df) ! i =
          map (\<lambda>(c, x). if c = name then v else x) (zip (columns df) (rows df ! i))"
        using i by (simp add: assign_scalar_def)
      then show ?thesis using j l n by simp
    next
      case False
      then have "rows (assign_scalar name v df) ! i = rows df ! i @ [v]"
        using i by (simp add: assign_scalar_def)
      then show ?thesis using j l by (simp add: nth_append)
    qed
  qed
  from 1 2 3 show ?thesis unfolding same_cells_except_def by simp
qed

lemma same_cells_except_trans:
  assumes "same_cells_except A df df1" and "same_cells_except B df1 df2"
  shows "same_cells_except (A @ B) df df2"
proof -
  from assms(1) have l1: "length (rows df1) = length (rows df)"
    and t1: "take (length (columns df)) (columns df1) = columns df"
    and c1: "\<forall>i<length (rows df). \<forall>j<length (columns df).
        columns df ! j \<notin> set A \<longrightarrow> rows df1 ! i ! j = rows df ! i ! j"
    unfolding same_cells_except_def by blast+
  from assms(2) have l2: "length (rows df2) = length (rows df1)"
    and t2: "take (length (columns df1)) (columns df2) = columns df1"
    and c2: "\<forall>i<length (rows df1). \<forall>j<length (columns df1).
        columns df1 ! j \<notin> set B \<longrightarrow> rows df2 ! i ! j = rows df1 ! i ! j"
    unfolding same_cells_except_def by blast+
  have le: "length (columns df) \<le> length (columns df1)"
    using arg_cong [OF t1, of length] by simp
  have n1: "columns df1 ! j = columns df ! j" if "j < length (columns df)" for j
    using that arg_cong [OF t1, of "\<lambda>xs. xs ! j"] by simp
  have "take (length (columns df)) (columns df2) =
        take (length (columns df)) (take (length (columns df1)) (columns df2))"
    using le by (simp add: min_def)
  then have t: "take (length (columns df)) (columns df2) = columns df"
    unfolding t2 t1 .
  have c: "rows df2 ! i ! j = rows df ! i ! j"
    if i: "i < length (rows df)" and j: "j < length (columns df)"
      and n: "columns df ! j \<notin> set (A @ B)" for i j
  proof -
    have "rows df2 ! i ! j = rows df1 ! i ! j"
      using c2 i j le l1 n n1 [OF j] by simp
    also have "\<dots> = rows df ! i ! j" using c1 i j n by simp
    finally show ?thesis .
  qed
  from l1 l2 t c show ?thesis unfolding same_cells_except_def by simp
qed

lemma same_cells_except_mono:
  "same_cells_except A df df' \<Longrightarrow> set A \<subseteq> set B \<Longrightarrow> same_cells_except B df df'"
  unfolding same_cells_except_def by blast

lemma extract_fleet_info_cases:
  "extract_fleet_info df s =
     (case re_search match_range_at s of
        None \<Rightarrow> assign_scalar ''fleet_number''
                 (case re_search match_fleet_at (lower s) of Some g \<Rightarrow> Str g | None \<Rightarrow> Null) df
      | Some (a, b) \<Rightarrow>
          assign_scalar ''bus_range_end'' (Str b)
            (assign_scalar ''bus_range_start'' (Str a)
               (assign_scalar ''fleet_number''
                  (case re_search match_fleet_at (lower s) of Some g \<Rightarrow> Str g | None \<Rightarrow> Null) df)))"
  by (simp add: extract_fleet_info_def split: option.splits)

lemma extract_fleet_info_wf: "wf_df df \<Longrightarrow> wf_df (extract_fleet_info df s)"
  unfolding extract_fleet_info_cases by (auto split: option.splits intro: assign_scalar_wf)

lemma assign_scalar_column_set:
  "set (columns (assign_scalar name v df)) = insert name (set (columns df))"
  by (auto simp: assign_scalar_columns)

lemma extract_fleet_info_column_set:
  "set (columns (extract_fleet_info df s)) =
     set (columns df) \<union> {''fleet_number''} \<union>
     (if range_match s then {''bus_range_start'', ''bus_range_end''} else {})"
proof (cases "re_search match_range_at s")
  case None
  then have "\<not> range_match s" by (rule not_range_matchI)
  with None show ?thesis
    unfolding extract_fleet_info_cases by (simp add: assign_scalar_column_set)
next
  case (Some ab)
  then have "range_match s" by (rule range_matchI)
  with Some show ?thesis
    unfolding extract_fleet_info_cases
    by (cases ab) (auto simp: assign_scalar_column_set)
qed

lemma extract_fleet_info_frame:
  assumes "wf_df df"
  shows "same_cells_except
           (if range_match s then [''fleet_number'', ''bus_range_start'', ''bus_range_end'']
            else [''fleet_number'']) df (extract_fleet_info df s)"
proof (cases "re_search match_range_at s")
  case None
  then have n: "\<not> range_match s" by (rule not_range_matchI)
  show ?thesis
    unfolding extract_fleet_info_cases None using n assms
    by (simp add: assign_scalar_same_cells)
next
  case (Some ab)
  then have m: "range_match s" by (rule range_matchI)
  obtain a b where ab: "ab = (a, b)" by (cases ab)
  let ?v = "case re_search match_fleet_at (lower s) of Some g \<Rightarrow> Str g | None \<Rightarrow> Null"
  let ?df1 = "assign_scalar ''fleet_number'' ?v df"
  let ?df2 = "assign_scalar ''bus_range_start'' (Str a) ?df1"
  let ?df3 = "assign_scalar ''bus_range_end'' (Str b) ?df2"
  have w1: "wf_df ?df1" using assms by (rule assign_scalar_wf)
  have w2: "wf_df ?df2" using w1 by (rule assign_scalar_wf)
  have 1: "same_cells_except [''fleet_number''] df ?df1" using assms by (rule assign_scalar_same_cells)
  have 2: "same_cells_except [''bus_range_start''] ?df1 ?df2" using w1 by (rule assign_scalar_same_cells)
  have 3: "same_cells_except [''bus_range_end''] ?df2 ?df3" using w2 by (rule assign_scalar_same_cells)
  from same_cells_except_trans [OF same_cells_except_trans [OF 1 2] 3]
  have "same_cells_except [''fleet_number'', ''bus_range_start'', ''bus_range_end''] df ?df3" by simp
  moreover have "extract_fleet_info df s = ?df3"
    unfolding extract_fleet_info_cases Some ab by simp
  ultimately show ?thesis using m by simp
qed

section \<open>Column-name canonicalization: idempotence and collisions\<close>

text \<open>
  Claim C9. Column-name canonicalization is idempotent: cleaning a label that is already
  cleaned gives the same label, and so does the whole of \<^verbatim>\<open>clean_column_names\<close>, the
  fallback \<^verbatim>\<open>col_<index>\<close> of the empty labels included.
\<close>

theorem clean_column_names_idempotent:
  "clean_name (clean_name s) = clean_name s \<and>
   clean_column_names (clean_column_names df) = clean_column_names df"
  by (simp add: clean_name_idem clean_column_names_def clean_loop_idem)

text \<open>
  Claim C5 as stated fails: the distinct labels \<^verbatim>\<open>A b\<close> and \<^verbatim>\<open>a_b\<close> both become
  \<^verbatim>\<open>a_b\<close>, so the cleaned table has two columns of the same name.
\<close>

theorem clean_column_names_collision:
  "distinct [''A b'', ''a_b''] \<and>
   \<not> distinct (columns (clean_column_names
        \<lparr>columns = [''A b'', ''a_b''], dtypes = [DObject, DObject], rows = []\<rparr>))"
  by code_simp

text \<open>
  Claim C5, amended. After \<^verbatim>\<open>clean_column_names\<close> the column at position \<open>i\<close> carries
  the cleaned form of its label, or \<^verbatim>\<open>col_<i>\<close> when the cleaned form is empty; nothing
  else resolves collisions. The resulting names are pairwise distinct whenever the cleaned
  forms of the original labels are non-empty and pairwise distinct.
\<close>

theorem clean_column_names_labels:
  "columns (clean_column_names df) =
     map (\<lambda>(i, col). if clean_name col \<noteq> [] then clean_name col else ''col_'' @ string_of_nat i)
       (enumerate 0 (columns df)) \<and>
   ([] \<notin> set (map clean_name (columns df)) \<and> distinct (map clean_name (columns df))
      \<longrightarrow> distinct (columns (clean_column_names df)))"
proof -
  have f: "(\<lambda>(i, col). if clean_name col \<noteq> [] then clean_name col else ''col_'' @ string_of_nat i)
      = (\<lambda>(i, col). final_name i col)"
    by (simp add: final_name_def fun_eq_iff)
  have c: "columns (clean_column_names df) =
      map (\<lambda>(i, col). final_name i col) (enumerate 0 (columns df))"
    by (simp add: clean_column_names_def clean_loop_eq)
  show ?thesis unfolding f using c final_names_nonempty [of "columns df" 0] by simp
qed

text \<open>The theorem at a table with the labels \<^verbatim>\<open>Bus No\<close> and \<^verbatim>\<open>Fuel Cost (USD)\<close>.\<close>

theorem clean_column_names_labels_witness:
  "columns (clean_column_names
      \<lparr>columns = [''Bus No'', ''Fuel Cost (USD)''], dtypes = [DNumber, DNumber], rows = []\<rparr>) =
     [''bus_no'', ''fuel_cost_usd''] \<and>
   [] \<notin> set (map clean_name [''Bus No'', ''Fuel Cost (USD)'']) \<and>
   distinct (map clean_name [''Bus No'', ''Fuel Cost (USD)'']) \<and>
   distinct (columns (clean_column_names
      \<lparr>columns = [''Bus No'', ''Fuel Cost (USD)''], dtypes = [DNumber, DNumber], rows = []\<rparr>))"
proof -
  let ?df = "\<lparr>columns = [''Bus No'', ''Fuel Cost (USD)''], dtypes = [DNumber, DNumber], rows = []\<rparr>"
  have n: "map clean_name [''Bus No'', ''Fuel Cost (USD)''] = [''bus_no'', ''fuel_cost_usd'']"
    by code_simp
  have h: "[] \<notin> set (map clean_name (columns ?df)) \<and> distinct (map clean_name (columns ?df))"
    using n by simp
  have c: "columns (clean_column_names ?df) = [''bus_no'', ''fuel_cost_usd'']" by code_simp
  from clean_column_names_labels [of ?df] h have "distinct (columns (clean_column_names ?df))"
    by blast
  with c h show ?thesis by simp
qed

section \<open>The validation summary\<close>

text \<open>
  Claim C2 as stated fails on the empty history: the summary then has the single entry
  \<^verbatim>\<open>total_validations\<close>, and no \<^verbatim>\<open>pass_rate\<close> at all.
\<close>

theorem get_validation_summary_empty_no_pass_rate:
  "validation_results new_validator = [] \<and>
   map_of (get_validation_summary new_validator) ''total_validations'' = Some (PyInt 0) \<and>
   map_of (get_validation_summary new_validator) ''pass_rate'' = None"
  by (simp add: new_validator_def get_validation_summary_def)

text \<open>
  Claim C2, amended. With a history of \<open>n > 0\<close> results of which \<open>p\<close> passed,
  \<^verbatim>\<open>get_validation_summary\<close> returns \<^verbatim>\<open>total_validations = n\<close>, \<^verbatim>\<open>passed = p\<close>,
  \<^verbatim>\<open>failed = n - p\<close> and \<^verbatim>\<open>pass_rate = p / n\<close>; with an empty history it returns the
  one entry \<^verbatim>\<open>total_validations = 0\<close> and nothing else.
\<close>

theorem get_validation_summary_values:
  "(validation_results v \<noteq> [] \<longrightarrow>
      get_validation_summary v =
        [(''total_validations'', PyInt (int (length (validation_results v)))),
         (''passed'', PyInt (int (length (filter passed (validation_results v))))),
         (''failed'', PyInt (int (length (validation_results v)) -
                             int (length (filter passed (validation_results v))))),
         (''pass_rate'', PyFloat (Fract (int (length (filter passed (validation_results v))))
                                        (int (length (validation_results v)))))]) \<and>
   (validation_results v = [] \<longrightarrow>
      get_validation_summary v = [(''total_validations'', PyInt 0)])"
  by (simp add: get_validation_summary_def Let_def)

text \<open>Three validations of which two passed give the rate 2/3; no validation gives one entry.\<close>

theorem get_validation_summary_values_witness:
  "validation_results \<lparr>validation_rules = [],
       validation_results = [bare_result True, bare_result False, bare_result True]\<rparr> \<noteq> [] \<and>
   get_validation_summary \<lparr>validation_rules = [],
       validation_results = [bare_result True, bare_result False, bare_result True]\<rparr> =
     [(''total_validations'', PyInt 3), (''passed'', PyInt 2), (''failed'', PyInt 1),
      (''pass_rate'', PyFloat (Fract 2 3))] \<and>
   validation_results \<lparr>validation_rules = [], validation_results = []\<rparr> = [] \<and>
   get_validation_summary \<lparr>validation_rules = [], validation_results = []\<rparr> =
     [(''total_validations'', PyInt 0)]"
  using get_validation_summary_values
          [of "\<lparr>validation_rules = [],
                validation_results = [bare_result True, bare_result False, bare_result True]\<rparr>"]
        get_validation_summary_values [of "\<lparr>validation_rules = [], validation_results = []\<rparr>"]
  by (simp add: bare_result_def)

section \<open>The rule \<^verbatim>\<open>valid_fleet_numbers\<close>\<close>

text \<open>
  Claim C3, amended. For a table whose one \<^verbatim>\<open>fleet_number\<close> column holds the non-missing
  values \<^verbatim>\<open>"5"\<close>, \<^verbatim>\<open>"1000"\<close>, \<^verbatim>\<open>"abc"\<close>, where the first two parse as the numbers 5 and
  1000 and the third does not parse, the rule fails and reports one row: the count is that
  of the values that do not parse. The range check, which would count 1000, is reached
  only when every value parses.
\<close>

theorem valid_fleet_numbers_example:
  assumes "positions ''fleet_number'' df = [j]"
      and "filter (\<lambda>c. c \<noteq> Null) (column_cells j df) = [Str ''5'', Str ''1000'', Str ''abc'']"
      and "to_num (Str ''5'') = Some 5" and "to_num (Str ''1000'') = Some 1000"
      and "to_num (Str ''abc'') = None"
  shows "valid_fleet_numbers to_num fmt_range df ctx =
           Inr (False, ''Invalid fleet number format in 1 rows'')"
proof -
  have "j \<in> set (positions ''fleet_number'' df)" using assms(1) by simp
  then have c: "''fleet_number'' \<in> set (columns df)" by (rule positions_label)
  show ?thesis
    using c assms by (simp add: valid_fleet_numbers_def Let_def string_of_nat_1)
qed

text \<open>
  Claim C3 as stated fails: on the column \<^verbatim>\<open>["5", "1000", "abc"]\<close> the count in the
  message of the rule is 1, not 2.
\<close>

theorem valid_fleet_numbers_reports_one:
  "valid_fleet_numbers coerce_decimal (\<lambda>xs. [])
     \<lparr>columns = [''fleet_number''], dtypes = [DString],
      rows = [[Str ''5''], [Str ''1000''], [Str ''abc'']]\<rparr> [] =
   Inr (False, ''Invalid fleet number format in 1 rows'')"
  by code_simp

text \<open>The theorem at a table with a second column and a row without fleet number.\<close>

theorem valid_fleet_numbers_example_witness:
  "positions ''fleet_number''
     \<lparr>columns = [''bus'', ''fleet_number''], dtypes = [DNumber, DString],
      rows = [[Num 7, Str ''5''], [Num 8, Null], [Num 9, Str ''1000''], [Null, Str ''abc'']]\<rparr> = [1] \<and>
   filter (\<lambda>c. c \<noteq> Null) (column_cells 1
     \<lparr>columns = [''bus'', ''fleet_number''], dtypes = [DNumber, DString],
      rows = [[Num 7, Str ''5''], [Num 8, Null], [Num 9, Str ''1000''], [Null, Str ''abc'']]\<rparr>) =
     [Str ''5'', Str ''1000'', Str ''abc''] \<and>
   coerce_decimal (Str ''5'') = Some 5 \<and> coerce_decimal (Str ''1000'') = Some 1000 \<and>
   coerce_decimal (Str ''abc'') = None \<and>
   valid_fleet_numbers coerce_decimal (\<lambda>xs. [])
     \<lparr>columns = [''bus'', ''fleet_number''], dtypes = [DNumber, DString],
      rows = [[Num 7, Str ''5''], [Num 8, Null], [Num 9, Str ''1000''], [Null, Str ''abc'']]\<rparr> [] =
   Inr (False, ''Invalid fleet number format in 1 rows'')"
proof -
  let ?df = "\<lparr>columns = [''bus'', ''fleet_number''], dtypes = [DNumber, DString],
      rows = [[Num 7, Str ''5''], [Num 8, Null], [Num 9, Str ''1000''], [Null, Str ''abc'']]\<rparr>"
  have 1: "positions ''fleet_number'' ?df = [1]" by code_simp
  have 2: "filter (\<lambda>c. c \<noteq> Null) (column_cells 1 ?df) = [Str ''5'', Str ''1000'', Str ''abc'']"
    by code_simp
  have 3: "coerce_decimal (Str ''5'') = Some 5" by code_simp
  have 4: "coerce_decimal (Str ''1000'') = Some 1000" by code_simp
  have 5: "coerce_decimal (Str ''abc'') = None" by code_simp
  from valid_fleet_numbers_example [OF 1 2 3 4 5] 1 2 3 4 5 show ?thesis by blast
qed
section \<open>The validation engine\<close>

text \<open>
  Claim C6. For every table and every registry of rules (a dict, so its names are
  distinct), \<^verbatim>\<open>validate_dataframe\<close> records one outcome per registered rule, in
  registration order; a rule that raises is recorded as failed with a message that begins
  with \<^verbatim>\<open>Rule execution failed\<close>, and the rules after it are evaluated all the same; a
  rule that returns is recorded with what it returned; the overall \<^verbatim>\<open>passed\<close> is the
  conjunction of the recorded outcomes; and the result is appended to the history.
\<close>

theorem validate_dataframe_rules:
  assumes "distinct (map fst (validation_rules v))"
  shows "map fst (rules (fst (validate_dataframe v df ctx))) = map fst (validation_rules v) \<and>
    (\<forall>(name, info) \<in> set (validation_rules v).
        (\<forall>e. func info df ctx = Inl e \<longrightarrow>
           (\<exists>out. map_of (rules (fst (validate_dataframe v df ctx))) name = Some out \<and>
                  \<not> rule_passed out \<and> startswith (message out) ''Rule execution failed'')) \<and>
        (\<forall>p msg. func info df ctx = Inr (p, msg) \<longrightarrow>
           (\<exists>out. map_of (rules (fst (validate_dataframe v df ctx))) name = Some out \<and>
                  rule_passed out = p \<and> message out = msg))) \<and>
    passed (fst (validate_dataframe v df ctx)) =
      list_all (\<lambda>(name, out). rule_passed out) (rules (fst (validate_dataframe v df ctx))) \<and>
    validation_results (snd (validate_dataframe v df ctx)) =
      validation_results v @ [fst (validate_dataframe v df ctx)]"
proof -
  let ?res = "fst (validate_dataframe v df ctx)"
  let ?reg = "validation_rules v"
  have r: "rules ?res = map (\<lambda>(name, info). (name, outcome_of info df ctx)) ?reg"
    using assms by (rule validate_dataframe_outcomes)
  have 1: "map fst (rules ?res) = map fst ?reg"
    unfolding r by (induction ?reg) auto
  have look: "map_of (rules ?res) name = Some (outcome_of info df ctx)"
    if "(name, info) \<in> set ?reg" for name info
    unfolding r using assms that by (rule map_of_outcomes)
  have 2: "\<exists>out. map_of (rules ?res) name = Some out \<and>
              \<not> rule_passed out \<and> startswith (message out) ''Rule execution failed''"
    if m: "(name, info) \<in> set ?reg" and e: "func info df ctx = Inl e" for name info e
  proof -
    have "startswith (''Rule execution failed'' @ '': '' @ exc_str e) ''Rule execution failed''"
      by (rule startswith_append)
    then have "startswith (message (outcome_of info df ctx)) ''Rule execution failed''"
      using e by (simp add: outcome_of_def)
    moreover have "\<not> rule_passed (outcome_of info df ctx)" using e by (simp add: outcome_of_def)
    ultimately show ?thesis using look [OF m] by blast
  qed
  have 3: "\<exists>out. map_of (rules ?res) name = Some out \<and> rule_passed out = p \<and> message out = msg"
    if m: "(name, info) \<in> set ?reg" and e: "func info df ctx = Inr (p, msg)" for name info p msg
  proof -
    have "rule_passed (outcome_of info df ctx) = p \<and> message (outcome_of info df ctx) = msg"
      using e by (simp add: outcome_of_def)
    then show ?thesis using look [OF m] by blast
  qed
  have "list_all (\<lambda>(name, out). rule_passed out)
          (map (\<lambda>(name, info). (name, outcome_of info df ctx)) reg) =
        list_all (\<lambda>(name, info). rule_passed (outcome_of info df ctx)) reg" for reg
    by (induction reg) auto
  from this [of ?reg, symmetric]
  have 4: "passed ?res = list_all (\<lambda>(name, out). rule_passed out) (rules ?res)"
    unfolding r validate_dataframe_passed .
  have 5: "validation_results (snd (validate_dataframe v df ctx)) = validation_results v @ [?res]"
    by (rule validate_dataframe_snd)
  from 2 3 have 23: "\<forall>(name, info) \<in> set ?reg.
        (\<forall>e. func info df ctx = Inl e \<longrightarrow>
           (\<exists>out. map_of (rules ?res) name = Some out \<and>
                  \<not> rule_passed out \<and> startswith (message out) ''Rule execution failed'')) \<and>
        (\<forall>p msg. func info df ctx = Inr (p, msg) \<longrightarrow>
           (\<exists>out. map_of (rules ?res) name = Some out \<and>
                  rule_passed out = p \<and> message out = msg))"
    by blast
  from 1 23 4 5 show ?thesis by (intro conjI)
qed

text \<open>The theorem at the example registry, on a table without metadata columns.\<close>

theorem validate_dataframe_rules_witness:
  "distinct (map fst (validation_rules example_validator)) \<and>
   map fst (rules (fst (validate_dataframe example_validator
      \<lparr>columns = [''bus''], dtypes = [DNumber], rows = [[Num 1]]\<rparr> []))) =
     [''required_columns'', ''broken'', ''always_passes''] \<and>
   (\<exists>out. map_of (rules (fst (validate_dataframe example_validator
      \<lparr>columns = [''bus''], dtypes = [DNumber], rows = [[Num 1]]\<rparr> []))) ''broken'' = Some out \<and>
      \<not> rule_passed out \<and> startswith (message out) ''Rule execution failed'') \<and>
   (\<exists>out. map_of (rules (fst (validate_dataframe example_validator
      \<lparr>columns = [''bus''], dtypes = [DNumber], rows = [[Num 1]]\<rparr> []))) ''always_passes'' = Some out \<and>
      rule_passed out \<and> message out = ''fine'') \<and>
   \<not> passed (fst (validate_dataframe example_validator
      \<lparr>columns = [''bus''], dtypes = [DNumber], rows = [[Num 1]]\<rparr> []))"
proof -
  let ?df = "\<lparr>columns = [''bus''], dtypes = [DNumber], rows = [[Num 1]]\<rparr>"
  let ?res = "fst (validate_dataframe example_validator ?df [])"
  let ?b = "\<lparr>func = (\<lambda>df ctx. Inl (OtherError ''boom'')) :: rule_func, description = ''a rule that raises''\<rparr>"
  let ?p = "\<lparr>func = (\<lambda>df ctx. Inr (True, ''fine'')) :: rule_func, description = ''a rule that passes''\<rparr>"
  have h: "distinct (map fst (validation_rules example_validator))"
    by (simp add: example_names)
  note t = validate_dataframe_rules [OF h, of ?df "[]"]
  from t have 1: "map fst (rules ?res) = [''required_columns'', ''broken'', ''always_passes'']"
    by (simp only: example_names)
  have mb: "(''broken'', ?b) \<in> set (validation_rules example_validator)"
    by (simp add: example_rules)
  have mp: "(''always_passes'', ?p) \<in> set (validation_rules example_validator)"
    by (simp add: example_rules)
  from t mb have 2: "\<exists>out. map_of (rules ?res) ''broken'' = Some out \<and>
      \<not> rule_passed out \<and> startswith (message out) ''Rule execution failed''"
    by fastforce
  from t mp have 3: "\<exists>out. map_of (rules ?res) ''always_passes'' = Some out \<and>
      rule_passed out \<and> message out = ''fine''"
    by fastforce
  from 2 obtain out where o: "map_of (rules ?res) ''broken'' = Some out" "\<not> rule_passed out"
    by blast
  then have "(''broken'', out) \<in> set (rules ?res)" by (simp add: map_of_SomeD)
  then have "\<not> list_all (\<lambda>(name, out). rule_passed out) (rules ?res)"
    using o(2) by (auto simp: list_all_iff)
  with t have 4: "\<not> passed ?res" by blast
  from h 1 2 3 4 show ?thesis by (intro conjI)
qed
section \<open>Partitioned output\<close>

text \<open>
  Claim C10. For every table and every list of partition columns for which
  \<^verbatim>\<open>write_partitioned\<close> returns: a row with a missing value in a partition column is in
  no partition; the rows of the partitions are, as a multiset, the rows of the table
  without those rows; so they are a sub-multiset of the input rows, and a strict one as
  soon as one row has a missing value in a partition column.
\<close>

theorem write_partitioned_drops_null_keys:
  assumes "write_partitioned str_key format df partition_columns template = Inr parts"
  shows "(\<forall>r\<in>set (rows df). null_key df partition_columns r \<longrightarrow>
            (\<forall>p\<in>set parts. r \<notin> set (rows (partition_data p)))) \<and>
         mset (concat (map (\<lambda>p. rows (partition_data p)) parts)) =
           filter_mset (\<lambda>r. \<not> null_key df partition_columns r) (mset (rows df)) \<and>
         mset (concat (map (\<lambda>p. rows (partition_data p)) parts)) \<subseteq># mset (rows df) \<and>
         ((\<exists>r\<in>set (rows df). null_key df partition_columns r) \<longrightarrow>
            mset (concat (map (\<lambda>p. rows (partition_data p)) parts)) \<subset># mset (rows df))"
proof -
  let ?M = "mset (concat (map (\<lambda>p. rows (partition_data p)) parts))"
  have m: "?M = filter_mset (\<lambda>r. \<not> null_key df partition_columns r) (mset (rows df))"
    using assms by (rule partition_rows_mset)
  have 1: "\<forall>r\<in>set (rows df). null_key df partition_columns r \<longrightarrow>
            (\<forall>p\<in>set parts. r \<notin> set (rows (partition_data p)))"
  proof (intro ballI impI)
    fix r p assume n: "null_key df partition_columns r" and p: "p \<in> set parts"
    show "r \<notin> set (rows (partition_data p))"
    proof
      assume "r \<in> set (rows (partition_data p))"
      with p have "r \<in> set (concat (map (\<lambda>p. rows (partition_data p)) parts))" by auto
      then have "r \<in># ?M" by simp
      with n show False unfolding m by simp
    qed
  qed
  have 3: "?M \<subseteq># mset (rows df)" unfolding m by simp
  have 4: "(\<exists>r\<in>set (rows df). null_key df partition_columns r) \<longrightarrow> ?M \<subset># mset (rows df)"
  proof
    assume "\<exists>r\<in>set (rows df). null_key df partition_columns r"
    then obtain r where r: "r \<in># mset (rows df)" "null_key df partition_columns r" by auto
    then have "r \<notin># ?M" unfolding m by simp
    with r(1) have "?M \<noteq> mset (rows df)" by metis
    with 3 show "?M \<subset># mset (rows df)" by (simp add: subset_mset.less_le)
  qed
  from 1 m 3 4 show ?thesis by (intro conjI)
qed

text \<open>The theorem at the example table, whose second row has no fleet number.\<close>

theorem write_partitioned_drops_null_keys_witness:
  "partition_consolidated no_str_key format_plain example_consolidated = Inr example_partitions \<and>
   write_partitioned no_str_key format_plain example_consolidated [''fleet_number''] ''fleet_data'' =
     Inr example_partitions \<and>
   (\<exists>r\<in>set (rows example_consolidated). null_key example_consolidated [''fleet_number''] r) \<and>
   [Num 2, Null] \<notin> set (concat (map (\<lambda>p. rows (partition_data p)) example_partitions)) \<and>
   mset (concat (map (\<lambda>p. rows (partition_data p)) example_partitions)) \<subset>#
     mset (rows example_consolidated)"
proof -
  have n: "\<exists>r\<in>set (rows example_consolidated). null_key example_consolidated [''fleet_number''] r"
    using example_null_row by blast
  note t = write_partitioned_drops_null_keys [OF example_write]
  from t example_null_row
  have 1: "[Num 2, Null] \<notin> set (concat (map (\<lambda>p. rows (partition_data p)) example_partitions))"
    by auto
  from t n have 2: "mset (concat (map (\<lambda>p. rows (partition_data p)) example_partitions)) \<subset>#
     mset (rows example_consolidated)" by blast
  from example_consolidated_partitions example_write n 1 2 show ?thesis by (intro conjI)
qed



section \<open>Key derivation\<close>

text \<open>
  Claim C7. For every table (rectangular, as every DataFrame is) and every source
  identifier: if the identifier matches \<^verbatim>\<open>fleet\s*(\d+)\<close> ignoring case,
  \<^verbatim>\<open>extract_fleet_info\<close> sets the \<^verbatim>\<open>fleet_number\<close> of every row to the digit string
  captured by the leftmost match, and otherwise to the missing value; independently, if
  the identifier matches \<^verbatim>\<open>(\d{4})-(\d{4})\<close>, it sets \<^verbatim>\<open>bus_range_start\<close> and
  \<^verbatim>\<open>bus_range_end\<close> of every row to the two captured groups, and without such a match
  the columns of the result are those of the input and \<^verbatim>\<open>fleet_number\<close>: the two range
  columns are not added. The result is the input table with these columns set: it is
  rectangular, has as many rows as the input, keeps the columns of the input in their
  places, has no label other than those of the input and the derived ones, and keeps
  every cell of every other column.
\<close>

theorem extract_fleet_info_keys:
  assumes "wf_df df"
  shows "(fleet_match_ci s \<longrightarrow>
            (\<exists>g. fleet_capture s g) \<and>
            (\<forall>g. fleet_capture s g \<longrightarrow>
                 has_column_value (extract_fleet_info df s) ''fleet_number'' (Str g))) \<and>
         (\<not> fleet_match_ci s \<longrightarrow>
            has_column_value (extract_fleet_info df s) ''fleet_number'' Null) \<and>
         (range_match s \<longrightarrow>
            (\<exists>a b. range_capture s a b) \<and>
            (\<forall>a b. range_capture s a b \<longrightarrow>
                 has_column_value (extract_fleet_info df s) ''bus_range_start'' (Str a) \<and>
                 has_column_value (extract_fleet_info df s) ''bus_range_end'' (Str b))) \<and>
         (\<not> range_match s \<longrightarrow>
            columns (extract_fleet_info df s) =
              (if ''fleet_number'' \<in> set (columns df) then columns df
               else columns df @ [''fleet_number''])) \<and>
         wf_df (extract_fleet_info df s) \<and>
         length (rows (extract_fleet_info df s)) = length (rows df) \<and>
         set (columns (extract_fleet_info df s)) =
           set (columns df) \<union> {''fleet_number''} \<union>
           (if range_match s then {''bus_range_start'', ''bus_range_end''} else {}) \<and>
         same_cells_except
           (if range_match s then [''fleet_number'', ''bus_range_start'', ''bus_range_end'']
            else [''fleet_number'']) df (extract_fleet_info df s)"
proof -
  note f = extract_fleet_info_fleet [OF assms, of s]
  have 1: "fleet_match_ci s \<longrightarrow> (\<exists>g. fleet_capture s g)"
  proof
    assume "fleet_match_ci s"
    then have "re_search match_fleet_at (lower s) \<noteq> None" by (simp add: search_fleet_None)
    then obtain g where "re_search match_fleet_at (lower s) = Some g" by blast
    then show "\<exists>g. fleet_capture s g" using search_fleet_iff by blast
  qed
  have 2: "has_column_value (extract_fleet_info df s) ''fleet_number'' (Str g)"
    if "fleet_capture s g" for g
  proof -
    from that have "re_search match_fleet_at (lower s) = Some g" by (simp add: search_fleet_iff)
    with f show ?thesis by simp
  qed
  have 3: "\<not> fleet_match_ci s \<longrightarrow> has_column_value (extract_fleet_info df s) ''fleet_number'' Null"
  proof
    assume "\<not> fleet_match_ci s"
    then have "re_search match_fleet_at (lower s) = None" by (simp add: search_fleet_None)
    with f show "has_column_value (extract_fleet_info df s) ''fleet_number'' Null" by simp
  qed
  have 4: "range_match s \<longrightarrow> (\<exists>a b. range_capture s a b)"
  proof
    assume "range_match s"
    then have "re_search match_range_at s \<noteq> None" by (simp add: search_range_None)
    then obtain a b where "re_search match_range_at s = Some (a, b)" by (metis option.exhaust surj_pair)
    then show "\<exists>a b. range_capture s a b" using search_range_iff by blast
  qed
  have 5: "has_column_value (extract_fleet_info df s) ''bus_range_start'' (Str a) \<and>
           has_column_value (extract_fleet_info df s) ''bus_range_end'' (Str b)"
    if "range_capture s a b" for a b
  proof -
    from that have "re_search match_range_at s = Some (a, b)" by (simp add: search_range_iff)
    with assms show ?thesis by (rule extract_fleet_info_range)
  qed
  have 6: "\<not> range_match s \<longrightarrow> columns (extract_fleet_info df s) =
              (if ''fleet_number'' \<in> set (columns df) then columns df
               else columns df @ [''fleet_number''])"
  proof
    assume "\<not> range_match s"
    then have "re_search match_range_at s = None" by (simp add: search_range_None)
    then show "columns (extract_fleet_info df s) =
              (if ''fleet_number'' \<in> set (columns df) then columns df
               else columns df @ [''fleet_number''])" by (rule extract_fleet_info_no_range)
  qed
  have 7: "wf_df (extract_fleet_info df s)" using assms by (rule extract_fleet_info_wf)
  have 9: "set (columns (extract_fleet_info df s)) =
           set (columns df) \<union> {''fleet_number''} \<union>
           (if range_match s then {''bus_range_start'', ''bus_range_end''} else {})"
    by (rule extract_fleet_info_column_set)
  have 10: "same_cells_except
           (if range_match s then [''fleet_number'', ''bus_range_start'', ''bus_range_end'']
            else [''fleet_number'']) df (extract_fleet_info df s)"
    using assms by (rule extract_fleet_info_frame)
  from 10 have 8: "length (rows (extract_fleet_info df s)) = length (rows df)"
    unfolding same_cells_except_def by blast
  have a: "fleet_match_ci s \<longrightarrow>
            (\<exists>g. fleet_capture s g) \<and>
            (\<forall>g. fleet_capture s g \<longrightarrow>
                 has_column_value (extract_fleet_info df s) ''fleet_number'' (Str g))"
    using 1 2 by blast
  have b: "range_match s \<longrightarrow>
            (\<exists>a b. range_capture s a b) \<and>
            (\<forall>a b. range_capture s a b \<longrightarrow>
                 has_column_value (extract_fleet_info df s) ''bus_range_start'' (Str a) \<and>
                 has_column_value (extract_fleet_info df s) ''bus_range_end'' (Str b))"
    using 4 5 by blast
  from a 3 b 6 7 8 9 10 show ?thesis by (intro conjI)
qed

text \<open>
  The theorem at the file names \<^verbatim>\<open>Fleet 12 - data.xlsx\<close>, \<^verbatim>\<open>report.xlsx\<close> and
  \<^verbatim>\<open>Fleet3_1000-1050.xlsx\<close>.
\<close>

theorem extract_fleet_info_keys_witness:
  "wf_df example_sheet \<and>
   fleet_match_ci ''Fleet 12 - data.xlsx'' \<and> fleet_capture ''Fleet 12 - data.xlsx'' ''12'' \<and>
   has_column_value (extract_fleet_info example_sheet ''Fleet 12 - data.xlsx'')
     ''fleet_number'' (Str ''12'') \<and>
   \<not> fleet_match_ci ''report.xlsx'' \<and>
   has_column_value (extract_fleet_info example_sheet ''report.xlsx'') ''fleet_number'' Null \<and>
   range_match ''Fleet3_1000-1050.xlsx'' \<and>
   range_capture ''Fleet3_1000-1050.xlsx'' ''1000'' ''1050'' \<and>
   has_column_value (extract_fleet_info example_sheet ''Fleet3_1000-1050.xlsx'')
     ''bus_range_start'' (Str ''1000'') \<and>
   has_column_value (extract_fleet_info example_sheet ''Fleet3_1000-1050.xlsx'')
     ''bus_range_end'' (Str ''1050'') \<and>
   \<not> range_match ''report.xlsx'' \<and>
   columns (extract_fleet_info example_sheet ''report.xlsx'') = [''bus'', ''fleet_number''] \<and>
   same_cells_except [''fleet_number''] example_sheet
     (extract_fleet_info example_sheet ''Fleet 12 - data.xlsx'') \<and>
   extract_fleet_info example_sheet ''Fleet 12 - data.xlsx'' =
     \<lparr>columns = [''bus'', ''fleet_number''], dtypes = [DNumber, DObject],
      rows = [[Num 1, Str ''12''], [Num 2, Str ''12'']]\<rparr> \<and>
   extract_fleet_info example_sheet ''report.xlsx'' =
     \<lparr>columns = [''bus'', ''fleet_number''], dtypes = [DNumber, DObject],
      rows = [[Num 1, Null], [Num 2, Null]]\<rparr> \<and>
   extract_fleet_info example_sheet ''Fleet3_1000-1050.xlsx'' =
     \<lparr>columns = [''bus'', ''fleet_number'', ''bus_range_start'', ''bus_range_end''],
      dtypes = [DNumber, DObject, DObject, DObject],
      rows = [[Num 1, Str ''3'', Str ''1000'', Str ''1050''],
              [Num 2, Str ''3'', Str ''1000'', Str ''1050'']]\<rparr>"
proof -
  have wf: "wf_df example_sheet" by code_simp
  have e1: "re_search match_fleet_at (lower ''Fleet 12 - data.xlsx'') = Some ''12''" by code_simp
  have e2: "re_search match_fleet_at (lower ''report.xlsx'') = None" by code_simp
  have e3: "re_search match_range_at ''Fleet3_1000-1050.xlsx'' = Some (''1000'', ''1050'')"
    by code_simp
  have e4: "re_search match_range_at ''report.xlsx'' = None" by code_simp
  have c1: "fleet_capture ''Fleet 12 - data.xlsx'' ''12''" using e1 by (rule search_fleet_Some)
  have m1: "fleet_match_ci ''Fleet 12 - data.xlsx''"
    using e1 by (rule fleet_match_ciI)
  have n2: "\<not> fleet_match_ci ''report.xlsx''" using e2 by (rule not_fleet_match_ciI)
  have c3: "range_capture ''Fleet3_1000-1050.xlsx'' ''1000'' ''1050''"
    using e3 by (rule search_range_Some)
  have m3: "range_match ''Fleet3_1000-1050.xlsx''"
    using e3 by (rule range_matchI)
  have n4: "\<not> range_match ''report.xlsx''" using e4 by (rule not_range_matchI)
  have cols: "columns example_sheet = [''bus'']" by (simp add: example_sheet_def)
  from extract_fleet_info_keys [OF wf, of "''Fleet 12 - data.xlsx''"] m1 c1
  have 1: "has_column_value (extract_fleet_info example_sheet ''Fleet 12 - data.xlsx'')
     ''fleet_number'' (Str ''12'')" by blast
  from extract_fleet_info_keys [OF wf, of "''report.xlsx''"] n2 n4
  have 2: "has_column_value (extract_fleet_info example_sheet ''report.xlsx'') ''fleet_number'' Null"
    and 4: "columns (extract_fleet_info example_sheet ''report.xlsx'') =
              (if ''fleet_number'' \<in> set (columns example_sheet) then columns example_sheet
               else columns example_sheet @ [''fleet_number''])" by blast+
  from 4 have 5: "columns (extract_fleet_info example_sheet ''report.xlsx'') = [''bus'', ''fleet_number'']"
    unfolding cols by simp
  from extract_fleet_info_keys [OF wf, of "''Fleet3_1000-1050.xlsx''"] m3 c3
  have 3: "has_column_value (extract_fleet_info example_sheet ''Fleet3_1000-1050.xlsx'')
     ''bus_range_start'' (Str ''1000'') \<and>
   has_column_value (extract_fleet_info example_sheet ''Fleet3_1000-1050.xlsx'')
     ''bus_range_end'' (Str ''1050'')" by blast
  have n1: "\<not> range_match ''Fleet 12 - data.xlsx''"
  proof -
    have "re_search match_range_at ''Fleet 12 - data.xlsx'' = None" by code_simp
    then show ?thesis by (rule not_range_matchI)
  qed
  from extract_fleet_info_keys [OF wf, of "''Fleet 12 - data.xlsx''"] n1
  have 6: "same_cells_except [''fleet_number''] example_sheet
     (extract_fleet_info example_sheet ''Fleet 12 - data.xlsx'')" by simp
  have v1: "extract_fleet_info example_sheet ''Fleet 12 - data.xlsx'' =
     \<lparr>columns = [''bus'', ''fleet_number''], dtypes = [DNumber, DObject],
      rows = [[Num 1, Str ''12''], [Num 2, Str ''12'']]\<rparr>" by code_simp
  have v2: "extract_fleet_info example_sheet ''report.xlsx'' =
     \<lparr>columns = [''bus'', ''fleet_number''], dtypes = [DNumber, DObject],
      rows = [[Num 1, Null], [Num 2, Null]]\<rparr>" by code_simp
  have v3: "extract_fleet_info example_sheet ''Fleet3_1000-1050.xlsx'' =
     \<lparr>columns = [''bus'', ''fleet_number'', ''bus_range_start'', ''bus_range_end''],
      dtypes = [DNumber, DObject, DObject, DObject],
      rows = [[Num 1, Str ''3'', Str ''1000'', Str ''1050''],
              [Num 2, Str ''3'', Str ''1000'', Str ''1050'']]\<rparr>" by code_simp
  from wf m1 c1 1 n2 2 m3 c3 3 n4 5 6 v1 v2 v3 show ?thesis by (intro conjI) blast+
qed

section \<open>Metadata columns and summary statistics\<close>

text \<open>
  Claim C1 does not hold of the code. \<^verbatim>\<open>process_dataframe\<close> adds \<^verbatim>\<open>fleet_number\<close> (and the
  bus range) and nothing else: for the sheet with the one column \<^verbatim>\<open>Bus No\<close>, read from
  \<^verbatim>\<open>report.xlsx\<close>, the normalized table has the columns \<^verbatim>\<open>bus_no\<close> and
  \<^verbatim>\<open>fleet_number\<close>, whatever the conversions of pandas do, and the rule
  \<^verbatim>\<open>required_columns\<close> fails on it. The columns \<^verbatim>\<open>source_file\<close>, \<^verbatim>\<open>source_sheet\<close>,
  \<^verbatim>\<open>source_path\<close> and \<^verbatim>\<open>ingestion_timestamp\<close> are added by
  \<^verbatim>\<open>ExcelReader.read_sheet_with_metadata\<close>, which \<^verbatim>\<open>process_single_file\<close> never calls.
\<close>

theorem process_dataframe_without_metadata:
  "process_dataframe pd example_raw ''report.xlsx'' =
     Inr \<lparr>columns = [''bus_no'', ''fleet_number''], dtypes = [DNumber, DString],
          rows = [[Num 1, Null], [Num 2, Null]]\<rparr> \<and>
   has_required_columns
     \<lparr>columns = [''bus_no'', ''fleet_number''], dtypes = [DNumber, DString],
      rows = [[Num 1, Null], [Num 2, Null]]\<rparr> ctx =
     Inr (False, ''Missing required columns: ['' @ [CHR 0x27] @ ''source_file'' @ [CHR 0x27] @
                 '', '' @ [CHR 0x27] @ ''ingestion_timestamp'' @ [CHR 0x27] @ '']'')"
  by code_simp

text \<open>
  Claim C4 does not hold of the code. The sheet with the one column \<^verbatim>\<open>Fuel Type\<close>, read
  from \<^verbatim>\<open>Fleet 12 - data.xlsx\<close>, is normalized to a table with the string columns
  \<^verbatim>\<open>fuel_type\<close> and \<^verbatim>\<open>fleet_number\<close>. It has a metric column and no numeric one, and
  \<^verbatim>\<open>calculate_summary_stats\<close> with \<^verbatim>\<open>group_by = 'fleet_number'\<close> returns a mapping with the
  entry \<^verbatim>\<open>by_group\<close>: only the \<^verbatim>\<open>overall\<close> table is restricted to numeric columns.
\<close>

theorem calculate_summary_stats_by_group_only:
  "process_dataframe example_conv example_fuel_raw ''Fleet 12 - data.xlsx'' =
     Inr \<lparr>columns = [''fuel_type'', ''fleet_number''], dtypes = [DString, DString],
          rows = [[Str ''diesel'', Str ''12'']]\<rparr> \<and>
   calculate_summary_stats
     \<lparr>columns = [''fuel_type'', ''fleet_number''], dtypes = [DString, DString],
      rows = [[Str ''diesel'', Str ''12'']]\<rparr> (Some ''fleet_number'') =
     Inr [(''by_group'', GroupedDescribe ''fleet_number'' [''fuel_type''])]"
  by code_simp

end
